theory Spec2Isabelle
  imports Complex_Main "HOL-Library.AList"
begin

section \<open>Python values\<close>

text \<open>
  The exceptions the modelled code can raise. Every raise of the source is a branch
  of the model that returns \<open>Inl\<close> of one of these.
\<close>

datatype py_error = IndexError | KeyError | ValueError | StopIteration
  | ZeroDivisionError | TypeError

text \<open>
  A Python float is a real number here; the one special value the program produces
  itself, \<open>float('inf')\<close>, is kept as \<open>PInf\<close>. NaN only arises from
  \<open>inf - inf\<close> in the annealing step, where it is treated explicitly.
\<close>

datatype pyfloat = Fin real | PInf

text \<open>
  The sums that are compared with a capacity, and the temperature of a generation, are
  computed as the machine computes them: the exact result of every operation is rounded
  to the nearest number with 53 significant bits, a tie going to the even significand
  (the range of the exponent is not bounded: no overflow to infinity, no subnormal
  numbers). \<open>sum(...)\<close> adds from the left, starting from 0.
\<close>

definition round_half_even :: "real \<Rightarrow> int" where
  "round_half_even x =
     (let n = \<lfloor>x\<rfloor>; r = x - of_int n
      in if r < 1/2 then n else if 1/2 < r then n + 1 else if even n then n else n + 1)"

definition round_to_double :: "real \<Rightarrow> real" where
  "round_to_double x =
     (if x = 0 then 0
      else (let ulp = 2 powr (of_int \<lfloor>log 2 \<bar>x\<bar>\<rfloor> - 52)
            in of_int (round_half_even (x / ulp)) * ulp))"

definition float_add :: "real \<Rightarrow> real \<Rightarrow> real" where
  "float_add x y = round_to_double (x + y)"

definition float_sub :: "real \<Rightarrow> real \<Rightarrow> real" where
  "float_sub x y = round_to_double (x - y)"

definition float_div :: "real \<Rightarrow> real \<Rightarrow> real" where
  "float_div x y = round_to_double (x / y)"

definition float_sum :: "real list \<Rightarrow> real" where
  "float_sum xs = fold (\<lambda>x acc. float_add acc x) xs 0"

instantiation pyfloat :: linorder
begin

fun less_eq_pyfloat :: "pyfloat \<Rightarrow> pyfloat \<Rightarrow> bool" where
  "less_eq_pyfloat (Fin a) (Fin b) = (a \<le> b)"
| "less_eq_pyfloat _ PInf = True"
| "less_eq_pyfloat PInf (Fin b) = False"

fun less_pyfloat :: "pyfloat \<Rightarrow> pyfloat \<Rightarrow> bool" where
  "less_pyfloat (Fin a) (Fin b) = (a < b)"
| "less_pyfloat (Fin a) PInf = True"
| "less_pyfloat PInf _ = False"

instance
proof
  fix x y z :: pyfloat
  show "(x < y) = (x \<le> y \<and> \<not> y \<le> x)"
    by (cases x; cases y) auto
  show "x \<le> x"
    by (cases x) auto
  show "x \<le> y \<Longrightarrow> y \<le> z \<Longrightarrow> x \<le> z"
    by (cases x; cases y; cases z) auto
  show "x \<le> y \<Longrightarrow> y \<le> x \<Longrightarrow> x = y"
    by (cases x; cases y) auto
  show "x \<le> y \<or> y \<le> x"
    by (cases x; cases y) auto
qed

end

text \<open>\<open>xs[i]\<close> on a list: a negative index counts from the end, an index out of
  range raises IndexError.\<close>

definition py_index :: "'a list \<Rightarrow> int \<Rightarrow> py_error + 'a" where
  "py_index xs i =
     (if 0 \<le> i \<and> i < int (length xs) then Inr (xs ! nat i)
      else if i < 0 \<and> - int (length xs) \<le> i then Inr (xs ! nat (int (length xs) + i))
      else Inl IndexError)"

text \<open>
  A \<open>dict\<close> is an association list in insertion order. \<open>d[k] = v\<close> is
  \<^const>\<open>AList.update\<close>: it overwrites the entry of an existing key in place and
  appends a new key at the end, as Python does. A Python dict has each key once.
\<close>

type_synonym ('k, 'v) dict = "('k \<times> 'v) list"

definition dict_contains :: "('k, 'v) dict \<Rightarrow> 'k \<Rightarrow> bool" where
  "dict_contains m k = (map_of m k \<noteq> None)"

definition dict_item :: "('k, 'v) dict \<Rightarrow> 'k \<Rightarrow> py_error + 'v" where
  "dict_item m k = (case map_of m k of None \<Rightarrow> Inl KeyError | Some v \<Rightarrow> Inr v)"

text \<open>\<open>m.get(k)\<close> for a dict of optional values: a missing key and a stored
  \<open>None\<close> both read as \<open>None\<close>.\<close>

definition dict_get :: "('k, 'v option) dict \<Rightarrow> 'k \<Rightarrow> 'v option" where
  "dict_get m k = (case map_of m k of None \<Rightarrow> None | Some v \<Rightarrow> v)"

definition dict_set :: "('k, 'v) dict \<Rightarrow> 'k \<Rightarrow> 'v \<Rightarrow> ('k, 'v) dict" where
  "dict_set m k v = AList.update k v m"

section \<open>The scenario (problem.py)\<close>

record device =
  dev_id :: int
  dev_x :: real
  dev_y :: real
  cpu_demand :: real
  memory_demand :: real
  storage_demand :: real

record cloudlet_type =
  ct_id :: int
  cpu_capacity :: real
  memory_capacity :: real
  storage_capacity :: real
  coverage_radius :: real
  base_cost :: real

record candidate_point =
  cp_id :: int
  cp_x :: real
  cp_y :: real
  placement_cost_factor :: real

record problem =
  devices :: "device list"
  candidate_points :: "candidate_point list"
  cloudlet_types :: "cloudlet_type list"
  device_to_candidate_distances :: "int \<times> int \<rightharpoonup> real"

text \<open>\<open>get_distance\<close>: the table's entry, \<open>float('inf')\<close> for a pair it does
  not hold.\<close>

definition get_distance :: "problem \<Rightarrow> int \<Rightarrow> int \<Rightarrow> pyfloat" where
  "get_distance p device_id candidate_id =
     (case device_to_candidate_distances p (device_id, candidate_id) of
        None \<Rightarrow> PInf
      | Some dval \<Rightarrow> Fin dval)"

section \<open>Candidate solutions (solution.py)\<close>

text \<open>
  The fields of a \<open>PlacementSolution\<close>. Its \<open>problem\<close> reference is the
  engine's scenario in every solution the engine builds (the constructor call in
  \<open>create_random_solution\<close>, and \<open>clone\<close>), so the scenario is a parameter of
  the methods below. A method mutates \<open>self\<close>; here it returns the new \<open>self\<close>.
\<close>

record solution =
  placement_map :: "(int, int option) dict"
  assignment_map :: "(int, int option) dict"
  total_cost :: real
  total_latency :: real
  fitness :: pyfloat
  is_feasible :: bool

definition init_solution :: "problem \<Rightarrow> solution" where
  "init_solution p =
     \<lparr> placement_map = fold (\<lambda>c m. dict_set m (cp_id c) None) (candidate_points p) [],
       assignment_map = fold (\<lambda>d m. dict_set m (dev_id d) None) (devices p) [],
       total_cost = 0, total_latency = 0, fitness = Fin 0, is_feasible = False \<rparr>"

definition clone :: "solution \<Rightarrow> solution" where
  "clone s =
     \<lparr> placement_map = placement_map s, assignment_map = assignment_map s,
       total_cost = total_cost s, total_latency = total_latency s,
       fitness = fitness s, is_feasible = is_feasible s \<rparr>"

definition place_cloudlet :: "solution \<Rightarrow> int \<Rightarrow> int \<Rightarrow> solution" where
  "place_cloudlet s candidate_id cloudlet_type_id =
     (if dict_contains (placement_map s) candidate_id
      then s\<lparr>placement_map := dict_set (placement_map s) candidate_id (Some cloudlet_type_id)\<rparr>
      else s)"

definition remove_cloudlet :: "solution \<Rightarrow> int \<Rightarrow> solution" where
  "remove_cloudlet s candidate_id =
     (if dict_contains (placement_map s) candidate_id
      then s\<lparr>placement_map := dict_set (placement_map s) candidate_id None,
              assignment_map :=
                fold (\<lambda>(device_id, assigned) m.
                        if assigned = Some candidate_id then dict_set m device_id None else m)
                  (assignment_map s) (assignment_map s)\<rparr>
      else s)"

definition assign_device :: "solution \<Rightarrow> int \<Rightarrow> int \<Rightarrow> solution" where
  "assign_device s device_id candidate_id =
     (if dict_contains (placement_map s) candidate_id
         \<and> dict_get (placement_map s) candidate_id \<noteq> None
      then s\<lparr>assignment_map := dict_set (assignment_map s) device_id (Some candidate_id)\<rparr>
      else s)"

definition get_devices_assigned_to :: "problem \<Rightarrow> solution \<Rightarrow> int \<Rightarrow> device list" where
  "get_devices_assigned_to p s candidate_id =
     (let ids = map fst (filter (\<lambda>(d_id, c_id). c_id = Some candidate_id) (assignment_map s))
      in filter (\<lambda>d. dev_id d \<in> set ids) (devices p))"

subsection \<open>evaluate\<close>

record usage =
  cpu :: real
  memory :: real
  storage :: real

text \<open>First loop of \<open>evaluate\<close>: every entry of the assignment mapping must hold a
  site, and that site must hold a facility type.\<close>

fun entries_loop :: "(int, int option) dict \<Rightarrow> (int, int option) dict \<Rightarrow> bool \<Rightarrow> bool" where
  "entries_loop pm [] feas = feas"
| "entries_loop pm ((device_id, candidate_id) # rest) feas =
     entries_loop pm rest
       (case candidate_id of
          None \<Rightarrow> False
        | Some c \<Rightarrow> if dict_get pm c = None then False else feas)"

text \<open>Second loop: the cost of every occupied site, and its zeroed usage record.\<close>

fun sites_loop ::
  "problem \<Rightarrow> (int, int option) dict \<Rightarrow> real \<times> (int, usage) dict
     \<Rightarrow> py_error + real \<times> (int, usage) dict" where
  "sites_loop p [] acc = Inr acc"
| "sites_loop p ((candidate_id, None) # rest) acc = sites_loop p rest acc"
| "sites_loop p ((candidate_id, Some cloudlet_type_id) # rest) (cost, resource_usage) =
     (case py_index (cloudlet_types p) cloudlet_type_id of
        Inl e \<Rightarrow> Inl e
      | Inr ct \<Rightarrow>
          (case find (\<lambda>c. cp_id c = candidate_id) (candidate_points p) of
             None \<Rightarrow> Inl StopIteration
           | Some cp \<Rightarrow>
               sites_loop p rest
                 (cost + base_cost ct * placement_cost_factor cp,
                  dict_set resource_usage candidate_id \<lparr>cpu = 0, memory = 0, storage = 0\<rparr>)))"

text \<open>Third loop, over the scenario's devices: an unassigned device, a device at an
  empty site and a device out of its facility's radius each clear the flag and are
  skipped; every other device adds its demands to its site and its distance to the
  latency.\<close>

fun devices_loop ::
  "problem \<Rightarrow> solution \<Rightarrow> device list \<Rightarrow> bool \<times> (int, usage) dict \<times> real
     \<Rightarrow> py_error + bool \<times> (int, usage) dict \<times> real" where
  "devices_loop p s [] acc = Inr acc"
| "devices_loop p s (d # ds) (feas, resource_usage, latency) =
     (case dict_get (assignment_map s) (dev_id d) of
        None \<Rightarrow> devices_loop p s ds (False, resource_usage, latency)
      | Some candidate_id \<Rightarrow>
          (case dict_get (placement_map s) candidate_id of
             None \<Rightarrow> devices_loop p s ds (False, resource_usage, latency)
           | Some cloudlet_type_id \<Rightarrow>
               (case py_index (cloudlet_types p) cloudlet_type_id of
                  Inl e \<Rightarrow> Inl e
                | Inr ct \<Rightarrow>
                    (case get_distance p (dev_id d) candidate_id of
                       PInf \<Rightarrow> devices_loop p s ds (False, resource_usage, latency)
                     | Fin distance \<Rightarrow>
                         if distance > coverage_radius ct
                         then devices_loop p s ds (False, resource_usage, latency)
                         else
                           (case dict_item resource_usage candidate_id of
                              Inl e \<Rightarrow> Inl e
                            | Inr u \<Rightarrow>
                                devices_loop p s ds
                                  (feas,
                                   dict_set resource_usage candidate_id
                                     \<lparr>cpu = float_add (cpu u) (cpu_demand d),
                                      memory = float_add (memory u) (memory_demand d),
                                      storage = float_add (storage u) (storage_demand d)\<rparr>,
                                   latency + distance))))))"

text \<open>Fourth loop: the capacity check of every occupied site; it stops at the
  first site over capacity.\<close>

fun usage_loop ::
  "problem \<Rightarrow> (int, int option) dict \<Rightarrow> (int, usage) dict \<Rightarrow> bool \<Rightarrow> py_error + bool" where
  "usage_loop p pm [] feas = Inr feas"
| "usage_loop p pm ((candidate_id, u) # rest) feas =
     (case dict_item pm candidate_id of
        Inl e \<Rightarrow> Inl e
      | Inr None \<Rightarrow> Inl TypeError
      | Inr (Some cloudlet_type_id) \<Rightarrow>
          (case py_index (cloudlet_types p) cloudlet_type_id of
             Inl e \<Rightarrow> Inl e
           | Inr ct \<Rightarrow>
               if cpu u > cpu_capacity ct \<or> memory u > memory_capacity ct
                  \<or> storage u > storage_capacity ct
               then Inr False
               else usage_loop p pm rest feas))"

definition max_possible_cost :: "problem \<Rightarrow> real" where
  "max_possible_cost p = sum_list (map (\<lambda>ct. base_cost ct * 1.2) (cloudlet_types p))"

definition max_possible_latency :: "problem \<Rightarrow> real" where
  "max_possible_latency p = real (length (devices p)) * 1000 * sqrt 2"

text \<open>\<open>evaluate\<close> returns the fitness it stores in \<open>self\<close>; the model returns the
  updated \<open>self\<close>. A float division by zero raises ZeroDivisionError.\<close>

definition evaluate :: "problem \<Rightarrow> real \<Rightarrow> solution \<Rightarrow> py_error + solution" where
  "evaluate p alpha s =
     (case sites_loop p (placement_map s) (0, []) of
        Inl e \<Rightarrow> Inl e
      | Inr (cost, usage0) \<Rightarrow>
          (case devices_loop p s (devices p)
                  (entries_loop (placement_map s) (assignment_map s) True, usage0, 0) of
             Inl e \<Rightarrow> Inl e
           | Inr (feas2, resource_usage, latency) \<Rightarrow>
               (case usage_loop p (placement_map s) resource_usage feas2 of
                  Inl e \<Rightarrow> Inl e
                | Inr feas3 \<Rightarrow>
                    (let feas = (if None \<in> set (map snd (assignment_map s)) then False else feas3);
                         s1 = s\<lparr>total_cost := cost, total_latency := latency,
                                is_feasible := feas\<rparr>
                     in if feas
                        then
                          if max_possible_cost p = 0 then Inl ZeroDivisionError
                          else if max_possible_latency p = 0 then Inl ZeroDivisionError
                          else Inr (s1\<lparr>fitness :=
                                 Fin (alpha * (cost / max_possible_cost p)
                                      + (1 - alpha) * (latency / max_possible_latency p))\<rparr>)
                        else Inr (s1\<lparr>fitness := PInf\<rparr>)))))"

section \<open>Objects and the random generator\<close>

text \<open>
  The engine holds references to \<open>PlacementSolution\<close> objects: the population is a
  list of references, elites are carried over as the same objects, and the operators
  return either a fresh object or the object they were given. The store maps an
  address to the fields of the object there; addresses below \<open>next_ref\<close> are
  allocated. The two dicts of an object belong to that object alone (the constructor
  builds new ones and \<open>clone\<close> copies them), so they are stored with it.

  \<open>rng\<close> is the sequence of raw draws the random generator will still deliver. Every
  function of the \<open>random\<close> module takes its draws from the front of it; a theorem for
  all \<open>rng\<close> holds for every outcome of the random choices.
\<close>

type_synonym ref = nat

record state =
  store :: "ref \<Rightarrow> solution"
  next_ref :: nat
  rng :: "nat \<Rightarrow> nat"

definition new_object :: "solution \<Rightarrow> state \<Rightarrow> ref \<times> state" where
  "new_object v st =
     (next_ref st, st\<lparr>store := (store st)(next_ref st := v), next_ref := Suc (next_ref st)\<rparr>)"

text \<open>\<open>r.clone()\<close>: a new object with copies of the fields of \<open>r\<close>.\<close>

definition clone_obj :: "ref \<Rightarrow> state \<Rightarrow> ref \<times> state" where
  "clone_obj r st = new_object (clone (store st r)) st"

text \<open>A method call or a loop that mutates the one object \<open>r\<close> and may raise.\<close>

definition modify_obj ::
  "ref \<Rightarrow> (solution \<Rightarrow> py_error + solution) \<Rightarrow> state \<Rightarrow> py_error + state" where
  "modify_obj r f st =
     (case f (store st r) of
        Inl e \<Rightarrow> Inl e
      | Inr s' \<Rightarrow> Inr (st\<lparr>store := (store st)(r := s')\<rparr>))"

definition draw :: "state \<Rightarrow> nat \<times> state" where
  "draw st = (rng st 0, st\<lparr>rng := (\<lambda>n. rng st (Suc n))\<rparr>)"

text \<open>\<open>random.random()\<close>: a float in [0, 1) with 53 random bits.\<close>

definition random_random :: "state \<Rightarrow> real \<times> state" where
  "random_random st = (let (raw, st') = draw st in (real (raw mod 2 ^ 53) / 2 ^ 53, st'))"

text \<open>\<open>random.randint(a, b)\<close>: an integer of [a, b]; ValueError on an empty range.\<close>

definition random_randint :: "int \<Rightarrow> int \<Rightarrow> state \<Rightarrow> py_error + int \<times> state" where
  "random_randint a b st =
     (if b < a then Inl ValueError
      else let (raw, st') = draw st in Inr (a + int (raw mod nat (b - a + 1)), st'))"

text \<open>\<open>random.choice(xs)\<close>: IndexError on an empty sequence.\<close>

definition random_choice :: "'a list \<Rightarrow> state \<Rightarrow> py_error + 'a \<times> state" where
  "random_choice xs st =
     (if xs = [] then Inl IndexError
      else let (raw, st') = draw st in Inr (xs ! (raw mod length xs), st'))"

text \<open>\<open>random.sample(xs, k)\<close>: \<open>k\<close> elements at distinct positions, in the order
  drawn; ValueError when \<open>k\<close> exceeds the length.\<close>

fun sample_loop :: "'a list \<Rightarrow> nat \<Rightarrow> state \<Rightarrow> 'a list \<times> state" where
  "sample_loop pool 0 st = ([], st)"
| "sample_loop [] (Suc k) st = ([], st)"
| "sample_loop (x # xs) (Suc k) st =
     (let (raw, st1) = draw st;
          i = raw mod length (x # xs);
          (rest, st2) = sample_loop (take i (x # xs) @ drop (Suc i) (x # xs)) k st1
      in ((x # xs) ! i # rest, st2))"

definition random_sample :: "'a list \<Rightarrow> nat \<Rightarrow> state \<Rightarrow> py_error + 'a list \<times> state" where
  "random_sample xs k st =
     (if length xs < k then Inl ValueError else Inr (sample_loop xs k st))"

text \<open>\<open>random.shuffle(xs)\<close>: a permutation of the list.\<close>

definition random_shuffle :: "'a list \<Rightarrow> state \<Rightarrow> 'a list \<times> state" where
  "random_shuffle xs st = sample_loop xs (length xs) st"

text \<open>\<open>min(xs, key=f)\<close> returns the first element with the least key; on an empty
  sequence it raises ValueError (every call of the engine is guarded).\<close>

fun min_by :: "('a \<Rightarrow> 'k::linorder) \<Rightarrow> 'a \<Rightarrow> 'a list \<Rightarrow> 'a" where
  "min_by f best [] = best"
| "min_by f best (x # xs) = min_by f (if f x < f best then x else best) xs"

definition py_min :: "('a \<Rightarrow> 'k::linorder) \<Rightarrow> 'a list \<Rightarrow> py_error + 'a" where
  "py_min f xs = (case xs of [] \<Rightarrow> Inl ValueError | x # rest \<Rightarrow> Inr (min_by f x rest))"

text \<open>\<open>xs[:n]\<close>: a negative bound counts from the end.\<close>

definition slice_to :: "'a list \<Rightarrow> int \<Rightarrow> 'a list" where
  "slice_to xs n = (if 0 \<le> n then take (nat n) xs else take (length xs - nat (- n)) xs)"

section \<open>The engine (ga.py)\<close>

record ga_config =
  ga_problem :: problem
  population_size :: int
  generations :: int
  crossover_rate :: real
  mutation_rate :: real
  ga_alpha :: real
  use_sa :: bool

record ga_fields =
  population :: "ref list"
  best_solution :: "ref option"
  fitness_history :: "pyfloat list"
  cost_history :: "pyfloat list"
  latency_history :: "pyfloat list"

text \<open>The capacity test of \<open>repair_solution\<close> and \<open>reassign_devices\<close>: the demands
  of the devices already at the site plus those of the new device.\<close>

definition has_room :: "problem \<Rightarrow> solution \<Rightarrow> int \<Rightarrow> cloudlet_type \<Rightarrow> device \<Rightarrow> bool" where
  "has_room p s candidate_id ct d =
     (let assigned = get_devices_assigned_to p s candidate_id
      in float_add (float_sum (map cpu_demand assigned)) (cpu_demand d) \<le> cpu_capacity ct
         \<and> float_add (float_sum (map memory_demand assigned)) (memory_demand d)
               \<le> memory_capacity ct
         \<and> float_add (float_sum (map storage_demand assigned)) (storage_demand d)
               \<le> storage_capacity ct)"

definition nearest :: "problem \<Rightarrow> device \<Rightarrow> candidate_point \<Rightarrow> candidate_point list \<Rightarrow> candidate_point" where
  "nearest p d c cs = min_by (\<lambda>c. get_distance p (dev_id d) (cp_id c)) c cs"

subsection \<open>create_random_solution\<close>

fun place_selected :: "problem \<Rightarrow> candidate_point list \<Rightarrow> ref \<Rightarrow> state \<Rightarrow> py_error + state" where
  "place_selected p [] r st = Inr st"
| "place_selected p (candidate # rest) r st =
     (case random_choice (cloudlet_types p) st of
        Inl e \<Rightarrow> Inl e
      | Inr (ct, st1) \<Rightarrow>
          place_selected p rest r
            (st1\<lparr>store := (store st1)(r := place_cloudlet (store st1 r) (cp_id candidate) (ct_id ct))\<rparr>))"

text \<open>The occupied candidates whose radius reaches the device (capacity is not
  looked at here).\<close>

fun covering_candidates ::
  "problem \<Rightarrow> solution \<Rightarrow> device \<Rightarrow> candidate_point list \<Rightarrow> py_error + candidate_point list" where
  "covering_candidates p s d [] = Inr []"
| "covering_candidates p s d (c # cs) =
     (case dict_item (placement_map s) (cp_id c) of
        Inl e \<Rightarrow> Inl e
      | Inr None \<Rightarrow> covering_candidates p s d cs
      | Inr (Some cloudlet_type_id) \<Rightarrow>
          (case py_index (cloudlet_types p) cloudlet_type_id of
             Inl e \<Rightarrow> Inl e
           | Inr ct \<Rightarrow>
               (case covering_candidates p s d cs of
                  Inl e \<Rightarrow> Inl e
                | Inr rest \<Rightarrow>
                    Inr (if get_distance p (dev_id d) (cp_id c) \<le> Fin (coverage_radius ct)
                         then c # rest else rest))))"

fun assign_nearest :: "problem \<Rightarrow> device list \<Rightarrow> solution \<Rightarrow> py_error + solution" where
  "assign_nearest p [] s = Inr s"
| "assign_nearest p (d # ds) s =
     (case covering_candidates p s d (candidate_points p) of
        Inl e \<Rightarrow> Inl e
      | Inr [] \<Rightarrow> assign_nearest p ds s
      | Inr (c # cs) \<Rightarrow>
          assign_nearest p ds (assign_device s (dev_id d) (cp_id (nearest p d c cs))))"

subsection \<open>repair_solution\<close>

fun unassigned_devices :: "solution \<Rightarrow> device list \<Rightarrow> py_error + device list" where
  "unassigned_devices s [] = Inr []"
| "unassigned_devices s (d # ds) =
     (case dict_item (assignment_map s) (dev_id d) of
        Inl e \<Rightarrow> Inl e
      | Inr a \<Rightarrow>
          (case unassigned_devices s ds of
             Inl e \<Rightarrow> Inl e
           | Inr rest \<Rightarrow> Inr (if a = None then d # rest else rest)))"

fun candidates_with_cloudlets ::
  "solution \<Rightarrow> candidate_point list \<Rightarrow> py_error + candidate_point list" where
  "candidates_with_cloudlets s [] = Inr []"
| "candidates_with_cloudlets s (c # cs) =
     (case dict_item (placement_map s) (cp_id c) of
        Inl e \<Rightarrow> Inl e
      | Inr t \<Rightarrow>
          (case candidates_with_cloudlets s cs of
             Inl e \<Rightarrow> Inl e
           | Inr rest \<Rightarrow> Inr (if t \<noteq> None then c # rest else rest)))"

text \<open>The occupied candidates that reach the device and have room for it.\<close>

fun feasible_candidates ::
  "problem \<Rightarrow> solution \<Rightarrow> device \<Rightarrow> candidate_point list \<Rightarrow> py_error + candidate_point list" where
  "feasible_candidates p s d [] = Inr []"
| "feasible_candidates p s d (c # cs) =
     (case dict_item (placement_map s) (cp_id c) of
        Inl e \<Rightarrow> Inl e
      | Inr None \<Rightarrow> Inl TypeError
      | Inr (Some cloudlet_type_id) \<Rightarrow>
          (case py_index (cloudlet_types p) cloudlet_type_id of
             Inl e \<Rightarrow> Inl e
           | Inr ct \<Rightarrow>
               (case feasible_candidates p s d cs of
                  Inl e \<Rightarrow> Inl e
                | Inr rest \<Rightarrow>
                    Inr (if get_distance p (dev_id d) (cp_id c) \<le> Fin (coverage_radius ct)
                            \<and> has_room p s (cp_id c) ct d
                         then c # rest else rest))))"

text \<open>The fallback of \<open>repair_solution\<close>. The \<open>break\<close> leaves the loop over the
  types only: the loop over the candidates goes on, so every empty site with a type
  that reaches the device is occupied, and the device ends at the last of them.
  Capacity is not tested on this path.\<close>

fun first_covering_type ::
  "problem \<Rightarrow> device \<Rightarrow> candidate_point \<Rightarrow> cloudlet_type list \<Rightarrow> solution \<Rightarrow> solution" where
  "first_covering_type p d c [] s = s"
| "first_covering_type p d c (ct # cts) s =
     (if get_distance p (dev_id d) (cp_id c) \<le> Fin (coverage_radius ct)
      then assign_device (place_cloudlet s (cp_id c) (ct_id ct)) (dev_id d) (cp_id c)
      else first_covering_type p d c cts s)"

fun force_placement :: "problem \<Rightarrow> device \<Rightarrow> candidate_point list \<Rightarrow> solution \<Rightarrow> py_error + solution" where
  "force_placement p d [] s = Inr s"
| "force_placement p d (c # cs) s =
     (case dict_item (placement_map s) (cp_id c) of
        Inl e \<Rightarrow> Inl e
      | Inr (Some t) \<Rightarrow> force_placement p d cs s
      | Inr None \<Rightarrow> force_placement p d cs (first_covering_type p d c (cloudlet_types p) s))"

definition repair_device :: "problem \<Rightarrow> device \<Rightarrow> solution \<Rightarrow> py_error + solution" where
  "repair_device p d s =
     (case candidates_with_cloudlets s (candidate_points p) of
        Inl e \<Rightarrow> Inl e
      | Inr occupied \<Rightarrow>
          (case feasible_candidates p s d occupied of
             Inl e \<Rightarrow> Inl e
           | Inr [] \<Rightarrow> force_placement p d (candidate_points p) s
           | Inr (c # cs) \<Rightarrow> Inr (assign_device s (dev_id d) (cp_id (nearest p d c cs)))))"

fun repair_loop :: "problem \<Rightarrow> device list \<Rightarrow> solution \<Rightarrow> py_error + solution" where
  "repair_loop p [] s = Inr s"
| "repair_loop p (d # ds) s =
     (case repair_device p d s of
        Inl e \<Rightarrow> Inl e
      | Inr s' \<Rightarrow> repair_loop p ds s')"

text \<open>What \<open>repair_solution\<close> does to its clone.\<close>

definition repair_body :: "problem \<Rightarrow> real \<Rightarrow> solution \<Rightarrow> py_error + solution" where
  "repair_body p alpha repaired =
     (case unassigned_devices repaired (devices p) of
        Inl e \<Rightarrow> Inl e
      | Inr unassigned \<Rightarrow>
          (case repair_loop p unassigned repaired of
             Inl e \<Rightarrow> Inl e
           | Inr repaired' \<Rightarrow> evaluate p alpha repaired'))"

definition repair_solution :: "ga_config \<Rightarrow> ref \<Rightarrow> state \<Rightarrow> py_error + ref \<times> state" where
  "repair_solution cfg solution st =
     (let (repaired, st1) = clone_obj solution st
      in case modify_obj repaired (repair_body (ga_problem cfg) (ga_alpha cfg)) st1 of
           Inl e \<Rightarrow> Inl e
         | Inr st2 \<Rightarrow> Inr (repaired, st2))"

definition create_random_solution :: "ga_config \<Rightarrow> state \<Rightarrow> py_error + ref \<times> state" where
  "create_random_solution cfg st =
     (let p = ga_problem cfg;
          (solution, st1) = new_object (init_solution p) st
      in case random_randint 1
                (min (int (length (candidate_points p))) (int (length (cloudlet_types p)) * 2)) st1 of
           Inl e \<Rightarrow> Inl e
         | Inr (num_cloudlets, st2) \<Rightarrow>
             (case random_sample (candidate_points p) (nat num_cloudlets) st2 of
                Inl e \<Rightarrow> Inl e
              | Inr (selected_candidates, st3) \<Rightarrow>
                  (case place_selected p selected_candidates solution st3 of
                     Inl e \<Rightarrow> Inl e
                   | Inr st4 \<Rightarrow>
                       (let (shuffled_devices, st5) = random_shuffle (devices p) st4
                        in case modify_obj solution
                                  (\<lambda>s. case assign_nearest p shuffled_devices s of
                                          Inl e \<Rightarrow> Inl e
                                        | Inr s' \<Rightarrow> evaluate p (ga_alpha cfg) s') st5 of
                             Inl e \<Rightarrow> Inl e
                           | Inr st6 \<Rightarrow>
                               if \<not> is_feasible (store st6 solution)
                               then repair_solution cfg solution st6
                               else Inr (solution, st6)))))"

subsection \<open>reassign_devices\<close>

text \<open>The inner loop: the nearest occupied candidate that reaches the device and
  has room for it; a later candidate replaces the best one only when strictly
  nearer.\<close>

fun best_candidate ::
  "problem \<Rightarrow> solution \<Rightarrow> device \<Rightarrow> candidate_point list \<Rightarrow> int option \<times> pyfloat
     \<Rightarrow> py_error + int option \<times> pyfloat" where
  "best_candidate p s d [] acc = Inr acc"
| "best_candidate p s d (c # cs) (best_cand, best_dist) =
     (case dict_item (placement_map s) (cp_id c) of
        Inl e \<Rightarrow> Inl e
      | Inr None \<Rightarrow> best_candidate p s d cs (best_cand, best_dist)
      | Inr (Some cloudlet_type_id) \<Rightarrow>
          (case py_index (cloudlet_types p) cloudlet_type_id of
             Inl e \<Rightarrow> Inl e
           | Inr ct \<Rightarrow>
               if get_distance p (dev_id d) (cp_id c) \<le> Fin (coverage_radius ct)
                  \<and> has_room p s (cp_id c) ct d
                  \<and> get_distance p (dev_id d) (cp_id c) < best_dist
               then best_candidate p s d cs (Some (cp_id c), get_distance p (dev_id d) (cp_id c))
               else best_candidate p s d cs (best_cand, best_dist)))"

fun reassign_loop :: "problem \<Rightarrow> device list \<Rightarrow> solution \<Rightarrow> py_error + solution" where
  "reassign_loop p [] s = Inr s"
| "reassign_loop p (d # ds) s =
     (case best_candidate p s d (candidate_points p) (None, PInf) of
        Inl e \<Rightarrow> Inl e
      | Inr (None, best_dist) \<Rightarrow> reassign_loop p ds s
      | Inr (Some best_cand, best_dist) \<Rightarrow>
          reassign_loop p ds (assign_device s (dev_id d) best_cand))"

definition clear_assignments :: "solution \<Rightarrow> solution" where
  "clear_assignments s =
     s\<lparr>assignment_map :=
         fold (\<lambda>device_id m. dict_set m device_id None) (map fst (assignment_map s))
           (assignment_map s)\<rparr>"

definition reassign_body :: "problem \<Rightarrow> solution \<Rightarrow> py_error + solution" where
  "reassign_body p new_solution = reassign_loop p (devices p) (clear_assignments new_solution)"

definition reassign_devices :: "ga_config \<Rightarrow> ref \<Rightarrow> state \<Rightarrow> py_error + ref \<times> state" where
  "reassign_devices cfg solution st =
     (let (new_solution, st1) = clone_obj solution st
      in case modify_obj new_solution (reassign_body (ga_problem cfg)) st1 of
           Inl e \<Rightarrow> Inl e
         | Inr st2 \<Rightarrow> Inr (new_solution, st2))"

subsection \<open>tournament_selection and crossover\<close>

definition tournament_selection :: "ref list \<Rightarrow> nat \<Rightarrow> state \<Rightarrow> py_error + ref \<times> state" where
  "tournament_selection pop tournament_size st =
     (case random_sample pop tournament_size st of
        Inl e \<Rightarrow> Inl e
      | Inr (tournament, st1) \<Rightarrow>
          (case py_min (\<lambda>r. fitness (store st1 r)) tournament of
             Inl e \<Rightarrow> Inl e
           | Inr r \<Rightarrow> Inr (r, st1)))"

text \<open>The swap of the placement genes at the keys \<open>keys[p1..p2]\<close>: the right-hand
  side reads both parents before either child is written.\<close>

fun swap_genes :: "int list \<Rightarrow> ref \<Rightarrow> ref \<Rightarrow> ref \<Rightarrow> ref \<Rightarrow> state \<Rightarrow> py_error + state" where
  "swap_genes [] parent1 parent2 child1 child2 st = Inr st"
| "swap_genes (k # ks) parent1 parent2 child1 child2 st =
     (case dict_item (placement_map (store st parent2)) k of
        Inl e \<Rightarrow> Inl e
      | Inr v2 \<Rightarrow>
          (case dict_item (placement_map (store st parent1)) k of
             Inl e \<Rightarrow> Inl e
           | Inr v1 \<Rightarrow>
               (let st1 = st\<lparr>store := (store st)(child1 :=
                              (store st child1)\<lparr>placement_map :=
                                 dict_set (placement_map (store st child1)) k v2\<rparr>)\<rparr>;
                    st2 = st1\<lparr>store := (store st1)(child2 :=
                              (store st1 child2)\<lparr>placement_map :=
                                 dict_set (placement_map (store st1 child2)) k v1\<rparr>)\<rparr>
                in swap_genes ks parent1 parent2 child1 child2 st2)))"

definition evaluate_pair ::
  "ga_config \<Rightarrow> ref \<Rightarrow> ref \<Rightarrow> state \<Rightarrow> py_error + (ref \<times> ref) \<times> state" where
  "evaluate_pair cfg child1 child2 st =
     (case modify_obj child1 (evaluate (ga_problem cfg) (ga_alpha cfg)) st of
        Inl e \<Rightarrow> Inl e
      | Inr st1 \<Rightarrow>
          (case modify_obj child2 (evaluate (ga_problem cfg) (ga_alpha cfg)) st1 of
             Inl e \<Rightarrow> Inl e
           | Inr st2 \<Rightarrow> Inr ((child1, child2), st2)))"

definition crossover ::
  "ga_config \<Rightarrow> ref \<Rightarrow> ref \<Rightarrow> state \<Rightarrow> py_error + (ref \<times> ref) \<times> state" where
  "crossover cfg parent1 parent2 st =
     (let (child1, st1) = clone_obj parent1 st;
          (child2, st2) = clone_obj parent2 st1;
          (r, st3) = random_random st2
      in if r < crossover_rate cfg
         then
           (let keys = map fst (placement_map (store st3 parent1))
            in if 2 \<le> length keys
               then
                 (case random_randint 0 (int (length keys) - 2) st3 of
                    Inl e \<Rightarrow> Inl e
                  | Inr (p1, st4) \<Rightarrow>
                      (case random_randint (p1 + 1) (int (length keys) - 1) st4 of
                         Inl e \<Rightarrow> Inl e
                       | Inr (p2, st5) \<Rightarrow>
                           (case swap_genes (take (nat (p2 + 1 - p1)) (drop (nat p1) keys))
                                   parent1 parent2 child1 child2 st5 of
                              Inl e \<Rightarrow> Inl e
                            | Inr st6 \<Rightarrow>
                                (case reassign_devices cfg child1 st6 of
                                   Inl e \<Rightarrow> Inl e
                                 | Inr (child1', st7) \<Rightarrow>
                                     (case reassign_devices cfg child2 st7 of
                                        Inl e \<Rightarrow> Inl e
                                      | Inr (child2', st8) \<Rightarrow>
                                          evaluate_pair cfg child1' child2' st8)))))
               else evaluate_pair cfg child1 child2 st3)
         else evaluate_pair cfg child1 child2 st3)"

subsection \<open>mutate\<close>

datatype mutation_type = Add | Remove | Change | Swap

definition used_sites :: "solution \<Rightarrow> int list" where
  "used_sites s = map fst (filter (\<lambda>(cid, ct). ct \<noteq> None) (placement_map s))"

fun unused_candidates :: "solution \<Rightarrow> candidate_point list \<Rightarrow> py_error + candidate_point list" where
  "unused_candidates s [] = Inr []"
| "unused_candidates s (c # cs) =
     (case dict_item (placement_map s) (cp_id c) of
        Inl e \<Rightarrow> Inl e
      | Inr t \<Rightarrow>
          (case unused_candidates s cs of
             Inl e \<Rightarrow> Inl e
           | Inr rest \<Rightarrow> Inr (if t = None then c # rest else rest)))"

text \<open>The four mutation operators on the object \<open>mutated\<close>.\<close>

fun apply_mutation :: "problem \<Rightarrow> mutation_type \<Rightarrow> ref \<Rightarrow> state \<Rightarrow> py_error + state" where
  "apply_mutation p Add mutated st =
     (case unused_candidates (store st mutated) (candidate_points p) of
        Inl e \<Rightarrow> Inl e
      | Inr [] \<Rightarrow> Inr st
      | Inr unused \<Rightarrow>
          (case random_choice unused st of
             Inl e \<Rightarrow> Inl e
           | Inr (c, st1) \<Rightarrow>
               (case random_choice (cloudlet_types p) st1 of
                  Inl e \<Rightarrow> Inl e
                | Inr (ct, st2) \<Rightarrow>
                    Inr (st2\<lparr>store := (store st2)(mutated :=
                           place_cloudlet (store st2 mutated) (cp_id c) (ct_id ct))\<rparr>))))"
| "apply_mutation p Remove mutated st =
     (case used_sites (store st mutated) of
        [] \<Rightarrow> Inr st
      | used \<Rightarrow>
          (case random_choice used st of
             Inl e \<Rightarrow> Inl e
           | Inr (cid, st1) \<Rightarrow>
               Inr (st1\<lparr>store := (store st1)(mutated := remove_cloudlet (store st1 mutated) cid)\<rparr>)))"
| "apply_mutation p Change mutated st =
     (case used_sites (store st mutated) of
        [] \<Rightarrow> Inr st
      | used \<Rightarrow>
          (case random_choice used st of
             Inl e \<Rightarrow> Inl e
           | Inr (cid, st1) \<Rightarrow>
               (case dict_item (placement_map (store st1 mutated)) cid of
                  Inl e \<Rightarrow> Inl e
                | Inr current \<Rightarrow>
                    (case filter (\<lambda>t. Some t \<noteq> current) (map ct_id (cloudlet_types p)) of
                       [] \<Rightarrow> Inr st1
                     | avail \<Rightarrow>
                         (case random_choice avail st1 of
                            Inl e \<Rightarrow> Inl e
                          | Inr (t, st2) \<Rightarrow>
                              Inr (st2\<lparr>store := (store st2)(mutated :=
                                     place_cloudlet (store st2 mutated) cid t)\<rparr>))))))"
| "apply_mutation p Swap mutated st =
     (let used = used_sites (store st mutated)
      in if 2 \<le> length used
         then
           (case random_sample used 2 st of
              Inl e \<Rightarrow> Inl e
            | Inr (picked, st1) \<Rightarrow>
                (case picked of
                   [c1, c2] \<Rightarrow>
                     (case dict_item (placement_map (store st1 mutated)) c1 of
                        Inl e \<Rightarrow> Inl e
                      | Inr t1 \<Rightarrow>
                          (case dict_item (placement_map (store st1 mutated)) c2 of
                             Inl e \<Rightarrow> Inl e
                           | Inr t2 \<Rightarrow>
                               Inr (st1\<lparr>store := (store st1)(mutated :=
                                      (store st1 mutated)\<lparr>placement_map :=
                                         dict_set (dict_set (placement_map (store st1 mutated)) c1 t2)
                                           c2 t1\<rparr>)\<rparr>)))
                 | _ \<Rightarrow> Inl ValueError))
         else Inr st)"

definition evaluate_obj :: "ga_config \<Rightarrow> ref \<Rightarrow> state \<Rightarrow> py_error + ref \<times> state" where
  "evaluate_obj cfg r st =
     (case modify_obj r (evaluate (ga_problem cfg) (ga_alpha cfg)) st of
        Inl e \<Rightarrow> Inl e
      | Inr st1 \<Rightarrow> Inr (r, st1))"

definition mutate :: "ga_config \<Rightarrow> ref \<Rightarrow> state \<Rightarrow> py_error + ref \<times> state" where
  "mutate cfg solution st =
     (let (mutated, st1) = clone_obj solution st;
          (r, st2) = random_random st1
      in if r < mutation_rate cfg
         then
           (case random_choice [Add, Remove, Change, Swap] st2 of
              Inl e \<Rightarrow> Inl e
            | Inr (mutation_type, st3) \<Rightarrow>
                (case apply_mutation (ga_problem cfg) mutation_type mutated st3 of
                   Inl e \<Rightarrow> Inl e
                 | Inr st4 \<Rightarrow>
                     (case reassign_devices cfg mutated st4 of
                        Inl e \<Rightarrow> Inl e
                      | Inr (mutated', st5) \<Rightarrow> evaluate_obj cfg mutated' st5)))
         else evaluate_obj cfg mutated st2)"

subsection \<open>simulated_annealing_improvement\<close>

text \<open>
  The acceptance test \<open>random.random() < math.exp(-delta / temperature)\<close> of a
  neighbour that is not better, with \<open>delta = neighbor.fitness - current_fitness\<close>.
  With an infinite neighbour fitness \<open>delta\<close> is infinite or NaN and the comparison
  is false; the temperature is at least 0.1 here.
\<close>

definition metropolis_accept :: "pyfloat \<Rightarrow> pyfloat \<Rightarrow> real \<Rightarrow> real \<Rightarrow> bool" where
  "metropolis_accept neighbor_fitness current_fitness temperature r =
     (case neighbor_fitness of
        PInf \<Rightarrow> False
      | Fin nf \<Rightarrow>
          (case current_fitness of
             PInf \<Rightarrow> True
           | Fin cf \<Rightarrow> r < exp (- (nf - cf) / temperature)))"

fun sa_loop ::
  "ga_config \<Rightarrow> real \<Rightarrow> nat \<Rightarrow> ref \<Rightarrow> pyfloat \<Rightarrow> state \<Rightarrow> py_error + ref \<times> state" where
  "sa_loop cfg temperature 0 current current_fitness st = Inr (current, st)"
| "sa_loop cfg temperature (Suc n) current current_fitness st =
     (case mutate cfg current st of
        Inl e \<Rightarrow> Inl e
      | Inr (neighbor, st1) \<Rightarrow>
          if fitness (store st1 neighbor) < current_fitness
          then sa_loop cfg temperature n neighbor (fitness (store st1 neighbor)) st1
          else
            (let (r, st2) = random_random st1
             in if metropolis_accept (fitness (store st1 neighbor)) current_fitness temperature r
                then sa_loop cfg temperature n neighbor (fitness (store st1 neighbor)) st2
                else sa_loop cfg temperature n current current_fitness st2))"

definition simulated_annealing_improvement ::
  "ga_config \<Rightarrow> ref \<Rightarrow> real \<Rightarrow> state \<Rightarrow> py_error + ref \<times> state" where
  "simulated_annealing_improvement cfg solution temperature st =
     (if \<not> use_sa cfg \<or> temperature < 0.1 then Inr (solution, st)
      else
        (let (current, st1) = clone_obj solution st
         in sa_loop cfg temperature 5 current (fitness (store st1 current)) st1))"

subsection \<open>update_best_solution, initialize_population and evolve\<close>

definition feasible_members :: "state \<Rightarrow> ref list \<Rightarrow> ref list" where
  "feasible_members st pop = filter (\<lambda>r. is_feasible (store st r)) pop"

definition update_best_solution :: "ga_fields \<Rightarrow> state \<Rightarrow> ga_fields \<times> state" where
  "update_best_solution ga st =
     (case feasible_members st (population ga) of
        [] \<Rightarrow> (ga, st)
      | r # rs \<Rightarrow>
          (let current_best = min_by (\<lambda>r. fitness (store st r)) r rs
           in if (case best_solution ga of
                    None \<Rightarrow> True
                  | Some b \<Rightarrow> fitness (store st current_best) < fitness (store st b))
              then (let (copy, st1) = clone_obj current_best st
                    in (ga\<lparr>best_solution := Some copy\<rparr>, st1))
              else (ga, st)))"

fun create_population :: "ga_config \<Rightarrow> nat \<Rightarrow> state \<Rightarrow> py_error + ref list \<times> state" where
  "create_population cfg 0 st = Inr ([], st)"
| "create_population cfg (Suc n) st =
     (case create_random_solution cfg st of
        Inl e \<Rightarrow> Inl e
      | Inr (r, st1) \<Rightarrow>
          (case create_population cfg n st1 of
             Inl e \<Rightarrow> Inl e
           | Inr (rs, st2) \<Rightarrow> Inr (r # rs, st2)))"

definition initialize_population ::
  "ga_config \<Rightarrow> ga_fields \<Rightarrow> state \<Rightarrow> py_error + ga_fields \<times> state" where
  "initialize_population cfg ga st =
     (case create_population cfg (nat (population_size cfg)) st of
        Inl e \<Rightarrow> Inl e
      | Inr (pop, st1) \<Rightarrow> Inr (update_best_solution (ga\<lparr>population := pop\<rparr>) st1))"

text \<open>One pass of the \<open>while\<close> loop: two parents, two children, repaired when
  infeasible.\<close>

definition repair_if_infeasible :: "ga_config \<Rightarrow> ref \<Rightarrow> state \<Rightarrow> py_error + ref \<times> state" where
  "repair_if_infeasible cfg c st =
     (if \<not> is_feasible (store st c) then repair_solution cfg c st else Inr (c, st))"

definition polish :: "ga_config \<Rightarrow> real \<Rightarrow> ref \<Rightarrow> state \<Rightarrow> py_error + ref \<times> state" where
  "polish cfg temperature c st =
     (if use_sa cfg then simulated_annealing_improvement cfg c temperature st else Inr (c, st))"

definition breed ::
  "ga_config \<Rightarrow> real \<Rightarrow> ref list \<Rightarrow> state \<Rightarrow> py_error + (ref \<times> ref) \<times> state" where
  "breed cfg temperature pop st =
     (case tournament_selection pop 3 st of
        Inl e \<Rightarrow> Inl e
      | Inr (p1, st1) \<Rightarrow>
     (case tournament_selection pop 3 st1 of
        Inl e \<Rightarrow> Inl e
      | Inr (p2, st2) \<Rightarrow>
     (case crossover cfg p1 p2 st2 of
        Inl e \<Rightarrow> Inl e
      | Inr ((c1, c2), st3) \<Rightarrow>
     (case mutate cfg c1 st3 of
        Inl e \<Rightarrow> Inl e
      | Inr (c1a, st4) \<Rightarrow>
     (case mutate cfg c2 st4 of
        Inl e \<Rightarrow> Inl e
      | Inr (c2a, st5) \<Rightarrow>
     (case polish cfg temperature c1a st5 of
        Inl e \<Rightarrow> Inl e
      | Inr (c1b, st6) \<Rightarrow>
     (case polish cfg temperature c2a st6 of
        Inl e \<Rightarrow> Inl e
      | Inr (c2b, st7) \<Rightarrow>
     (case repair_if_infeasible cfg c1b st7 of
        Inl e \<Rightarrow> Inl e
      | Inr (c1c, st8) \<Rightarrow>
     (case repair_if_infeasible cfg c2b st8 of
        Inl e \<Rightarrow> Inl e
      | Inr (c2c, st9) \<Rightarrow> Inr ((c1c, c2c), st9))))))))))"

function fill_population ::
  "ga_config \<Rightarrow> real \<Rightarrow> ref list \<Rightarrow> ref list \<Rightarrow> state \<Rightarrow> py_error + ref list \<times> state" where
  "fill_population cfg temperature pop new_population st =
     (if int (length new_population) < population_size cfg
      then
        (case breed cfg temperature pop st of
           Inl e \<Rightarrow> Inl e
         | Inr ((c1, c2), st1) \<Rightarrow>
             fill_population cfg temperature pop (new_population @ [c1, c2]) st1)
      else Inr (new_population, st))"
  by pat_completeness auto
termination
  by (relation "measure (\<lambda>(cfg, temperature, pop, new_population, st).
        nat (population_size cfg - int (length new_population)))") auto

declare fill_population.simps [simp del]

text \<open>What a generation appends to the three series.\<close>

definition record_history :: "ga_fields \<Rightarrow> state \<Rightarrow> ga_fields" where
  "record_history ga st =
     (case feasible_members st (population ga) of
        [] \<Rightarrow>
          ga\<lparr>fitness_history := fitness_history ga @ [PInf],
             cost_history := cost_history ga @ [PInf],
             latency_history := latency_history ga @ [PInf]\<rparr>
      | r # rs \<Rightarrow>
          (let ga1 = ga\<lparr>fitness_history :=
                        fitness_history ga @ [Min (set (map (\<lambda>r. fitness (store st r)) (r # rs)))]\<rparr>
           in case best_solution ga1 of
                None \<Rightarrow> ga1
              | Some b \<Rightarrow>
                  ga1\<lparr>cost_history := cost_history ga1 @ [Fin (total_cost (store st b))],
                      latency_history := latency_history ga1 @ [Fin (total_latency (store st b))]\<rparr>))"

text \<open>The body of the loop over the generations (the progress lines it prints are
  left out).\<close>

definition generation ::
  "ga_config \<Rightarrow> int \<Rightarrow> ga_fields \<Rightarrow> state \<Rightarrow> py_error + ga_fields \<times> state" where
  "generation cfg g ga st =
     (let temperature = float_sub 1 (float_div (real_of_int g) (real_of_int (generations cfg)));
          elite_size = max 2 (population_size cfg div 10);
          sorted_pop = sort_key (\<lambda>r. fitness (store st r)) (feasible_members st (population ga));
          elite = take (nat elite_size) sorted_pop
      in case fill_population cfg temperature (population ga) elite st of
           Inl e \<Rightarrow> Inl e
         | Inr (new_population, st1) \<Rightarrow>
             (let ga1 = ga\<lparr>population := slice_to new_population (population_size cfg)\<rparr>;
                  (ga2, st2) = update_best_solution ga1 st1
              in Inr (record_history ga2 st2, st2)))"

fun run_generations ::
  "ga_config \<Rightarrow> int list \<Rightarrow> ga_fields \<Rightarrow> state \<Rightarrow> py_error + ga_fields \<times> state" where
  "run_generations cfg [] ga st = Inr (ga, st)"
| "run_generations cfg (g # gs) ga st =
     (case generation cfg g ga st of
        Inl e \<Rightarrow> Inl e
      | Inr (ga1, st1) \<Rightarrow> run_generations cfg gs ga1 st1)"

text \<open>The fields of a new engine.\<close>

definition new_ga :: ga_fields where
  "new_ga = \<lparr>population = [], best_solution = None, fitness_history = [],
     cost_history = [], latency_history = []\<rparr>"

definition evolve :: "ga_config \<Rightarrow> ga_fields \<Rightarrow> state \<Rightarrow> py_error + ga_fields \<times> state" where
  "evolve cfg ga st =
     (case initialize_population cfg ga st of
        Inl e \<Rightarrow> Inl e
      | Inr (ga1, st1) \<Rightarrow> run_generations cfg (map int [0..<nat (generations cfg)]) ga1 st1)"

section \<open>The fitness normalisation as the specification words it\<close>

text \<open>
  The specification normalises the cost by the base costs at the largest site
  multiplier of the scenario, and the latency by the device count times the diagonal
  of the scenario's bounding box. These definitions follow those words; they are
  compared with \<^const>\<open>max_possible_cost\<close> and \<^const>\<open>max_possible_latency\<close>.
\<close>

definition max_site_multiplier :: "problem \<Rightarrow> real" where
  "max_site_multiplier p = Max (set (map placement_cost_factor (candidate_points p)))"

definition scenario_diagonal :: "problem \<Rightarrow> real" where
  "scenario_diagonal p =
     (let xs = map dev_x (devices p) @ map cp_x (candidate_points p);
          ys = map dev_y (devices p) @ map cp_y (candidate_points p)
      in sqrt ((Max (set xs) - Min (set xs))\<^sup>2 + (Max (set ys) - Min (set ys))\<^sup>2))"

definition spec_fitness :: "problem \<Rightarrow> real \<Rightarrow> real \<Rightarrow> real \<Rightarrow> real" where
  "spec_fitness p alpha cost latency =
     alpha * (cost / sum_list (map (\<lambda>ct. base_cost ct * max_site_multiplier p) (cloudlet_types p)))
     + (1 - alpha) * (latency / (real (length (devices p)) * scenario_diagonal p))"

section \<open>The annealing walk as the specification words it\<close>

text \<open>
  A walk of \<open>n\<close> steps from the solution \<open>current\<close>: each step generates a mutated
  neighbour; the neighbour becomes the current solution when its fitness improves on
  the current fitness, and otherwise when the draw \<open>u\<close> of the generator is below
  \<open>exp (- delta / temperature)\<close>, for finite fitness values (an infinite neighbour
  fitness is never accepted). The walk ends at its last current solution.
\<close>

inductive sa_walk :: "ga_config \<Rightarrow> real \<Rightarrow> nat \<Rightarrow> ref \<Rightarrow> state \<Rightarrow> ref \<Rightarrow> state \<Rightarrow> bool"
  for cfg :: ga_config and temperature :: real where
  finished: "sa_walk cfg temperature 0 current st current st"
| improving:
    "mutate cfg current st = Inr (neighbor, st1) \<Longrightarrow>
     fitness (store st1 neighbor) < fitness (store st1 current) \<Longrightarrow>
     sa_walk cfg temperature n neighbor st1 result st' \<Longrightarrow>
     sa_walk cfg temperature (Suc n) current st result st'"
| accepted:
    "mutate cfg current st = Inr (neighbor, st1) \<Longrightarrow>
     \<not> fitness (store st1 neighbor) < fitness (store st1 current) \<Longrightarrow>
     random_random st1 = (u, st2) \<Longrightarrow>
     fitness (store st1 neighbor) = Fin nf \<Longrightarrow>
     fitness (store st1 current) = Fin cf \<Longrightarrow>
     u < exp (- (nf - cf) / temperature) \<Longrightarrow>
     sa_walk cfg temperature n neighbor st2 result st' \<Longrightarrow>
     sa_walk cfg temperature (Suc n) current st result st'"
| rejected:
    "mutate cfg current st = Inr (neighbor, st1) \<Longrightarrow>
     \<not> fitness (store st1 neighbor) < fitness (store st1 current) \<Longrightarrow>
     random_random st1 = (u, st2) \<Longrightarrow>
     fitness (store st1 neighbor) = PInf
       \<or> (\<exists>nf cf. fitness (store st1 neighbor) = Fin nf \<and> fitness (store st1 current) = Fin cf
             \<and> \<not> u < exp (- (nf - cf) / temperature)) \<Longrightarrow>
     sa_walk cfg temperature n current st2 result st' \<Longrightarrow>
     sa_walk cfg temperature (Suc n) current st result st'"



text \<open>Feasibility in the words of the specification: every device of the scenario has
  a site, that site holds a facility type whose radius reaches the device, and at every
  occupied site the summed demands of the devices assigned to it are within the three
  capacities of the type placed there.\<close>

definition spec_feasible :: "problem \<Rightarrow> solution \<Rightarrow> bool" where
  "spec_feasible p s =
     ((\<forall>d \<in> set (devices p).
         case dict_get (assignment_map s) (dev_id d) of
           None \<Rightarrow> False
         | Some c \<Rightarrow>
             (case dict_get (placement_map s) c of
                None \<Rightarrow> False
              | Some t \<Rightarrow>
                  (case py_index (cloudlet_types p) t of
                     Inl e \<Rightarrow> True
                   | Inr ct \<Rightarrow> get_distance p (dev_id d) c \<le> Fin (coverage_radius ct))))
      \<and> (\<forall>site \<in> set (placement_map s).
            case snd site of
              None \<Rightarrow> True
            | Some t \<Rightarrow>
                (case py_index (cloudlet_types p) t of
                   Inl e \<Rightarrow> True
                 | Inr ct \<Rightarrow>
                     (let assigned = get_devices_assigned_to p s (fst site)
                      in sum_list (map cpu_demand assigned) \<le> cpu_capacity ct
                         \<and> sum_list (map memory_demand assigned) \<le> memory_capacity ct
                         \<and> sum_list (map storage_demand assigned) \<le> storage_capacity ct))))"

text \<open>What the specification has a generation append to the three series: the
  fitness, total cost and total latency of the feasible member of lowest fitness (the
  first of them in the order of the population, as \<open>min\<close> returns it), or \<open>+inf\<close> three
  times when no member is feasible.\<close>

definition best_feasible_entry :: "state \<Rightarrow> ref list \<Rightarrow> pyfloat \<times> pyfloat \<times> pyfloat" where
  "best_feasible_entry st pop =
     (case feasible_members st pop of
        [] \<Rightarrow> (PInf, PInf, PInf)
      | r # rs \<Rightarrow>
          (let best = min_by (\<lambda>r. fitness (store st r)) r rs
           in (fitness (store st best), Fin (total_cost (store st best)),
               Fin (total_latency (store st best)))))"

text \<open>The engine and the state that \<open>evolve\<close> has reached at the end of its first \<open>n\<close>
  generations.\<close>

definition evolve_upto :: "ga_config \<Rightarrow> nat \<Rightarrow> ga_fields \<Rightarrow> state \<Rightarrow> py_error + ga_fields \<times> state" where
  "evolve_upto cfg n ga st =
     (case initialize_population cfg ga st of
        Inl e \<Rightarrow> Inl e
      | Inr (ga1, st1) \<Rightarrow> run_generations cfg (map int [0..<n]) ga1 st1)"

section \<open>A small scenario\<close>

text \<open>
  Three devices on a line at 0, 10 and 20, one candidate site at 10 with cost
  multiplier 1, one facility type of radius 15 and base cost 100; the solution places
  the type at the site and assigns every device to it.
\<close>

definition ex_type :: cloudlet_type where
  "ex_type = \<lparr>ct_id = 0, cpu_capacity = 4, memory_capacity = 8, storage_capacity = 100,
     coverage_radius = 15, base_cost = 100\<rparr>"

definition ex_device :: "int \<Rightarrow> real \<Rightarrow> device" where
  "ex_device i px = \<lparr>dev_id = i, dev_x = px, dev_y = 0, cpu_demand = 1, memory_demand = 2,
     storage_demand = 5\<rparr>"

definition ex_problem :: problem where
  "ex_problem =
     \<lparr>devices = [ex_device 0 0, ex_device 1 10, ex_device 2 20],
      candidate_points = [\<lparr>cp_id = 0, cp_x = 10, cp_y = 0, placement_cost_factor = 1\<rparr>],
      cloudlet_types = [ex_type],
      device_to_candidate_distances = [(0, 0) \<mapsto> 10, (1, 0) \<mapsto> 0, (2, 0) \<mapsto> 10]\<rparr>"

definition ex_solution :: solution where
  "ex_solution =
     \<lparr>placement_map = [(0, Some 0)],
      assignment_map = [(0, Some 0), (1, Some 0), (2, Some 0)],
      total_cost = 0, total_latency = 0, fitness = Fin 0, is_feasible = False\<rparr>"

definition ex_evaluated :: "real \<Rightarrow> solution" where
  "ex_evaluated alpha =
     ex_solution\<lparr>total_cost := 100, total_latency := 20, is_feasible := True,
       fitness := Fin (alpha * (100 / 120) + (1 - alpha) * (20 / (3 * 1000 * sqrt 2)))\<rparr>"

text \<open>An engine configuration with both rates zero and annealing off, and a state
  whose object 0 is the evaluated solution; every draw of the generator is 0.\<close>

definition ex_cfg :: ga_config where
  "ex_cfg = \<lparr>ga_problem = ex_problem, population_size = 1, generations = 1,
     crossover_rate = 0, mutation_rate = 0, ga_alpha = 1/2, use_sa = False\<rparr>"

definition ex_state :: state where
  "ex_state = \<lparr>store = (\<lambda>r. ex_evaluated (1/2)), next_ref = 1, rng = (\<lambda>n. 0)\<rparr>"

text \<open>A scenario with one device and two candidate sites, the first occupied; the
  engine anneals and mutates with rate 0.2.\<close>

definition ex2_problem :: problem where
  "ex2_problem =
     \<lparr>devices = [ex_device 0 0],
      candidate_points = [\<lparr>cp_id = 0, cp_x = 5, cp_y = 0, placement_cost_factor = 1\<rparr>,
                          \<lparr>cp_id = 1, cp_x = 10, cp_y = 0, placement_cost_factor = 1\<rparr>],
      cloudlet_types = [ex_type],
      device_to_candidate_distances = [(0, 0) \<mapsto> 5, (0, 1) \<mapsto> 10]\<rparr>"

definition ex2_fitness :: "real \<Rightarrow> pyfloat" where
  "ex2_fitness cost = Fin (1/2 * (cost / 120) + (1 - 1/2) * (5 / (1 * 1000 * sqrt 2)))"

definition ex2_solution :: solution where
  "ex2_solution =
     \<lparr>placement_map = [(0, Some 0), (1, None)], assignment_map = [(0, Some 0)],
      total_cost = 100, total_latency = 5, fitness = ex2_fitness 100, is_feasible = True\<rparr>"

definition ex2_cfg :: ga_config where
  "ex2_cfg = \<lparr>ga_problem = ex2_problem, population_size = 3, generations = 1,
     crossover_rate = 4/5, mutation_rate = 1/5, ga_alpha = 1/2, use_sa = True\<rparr>"

definition ex2_state :: state where
  "ex2_state = \<lparr>store = (\<lambda>r. ex2_solution), next_ref = 1, rng = (\<lambda>n. 0)\<rparr>"

definition ex2_placed :: "solution \<Rightarrow> bool" where
  "ex2_placed s = (placement_map s = [(0, Some 0), (1, Some 0)] \<and> assignment_map s = [(0, Some 0)])"

text \<open>A scenario whose only device is out of the radius of the only candidate site,
  and an engine with a population of one.\<close>

definition ex3_problem :: problem where
  "ex3_problem =
     \<lparr>devices = [ex_device 0 0],
      candidate_points = [\<lparr>cp_id = 0, cp_x = 100, cp_y = 0, placement_cost_factor = 1\<rparr>],
      cloudlet_types = [ex_type],
      device_to_candidate_distances = [(0, 0) \<mapsto> 100]\<rparr>"

definition ex3_cfg :: ga_config where
  "ex3_cfg = \<lparr>ga_problem = ex3_problem, population_size = 1, generations = 1,
     crossover_rate = 4/5, mutation_rate = 1/5, ga_alpha = 1/2, use_sa = True\<rparr>"







text \<open>The solution of the small scenario with one more entry in its assignment
  mapping, for a device 99 that the scenario does not have (\<open>assign_device\<close> adds such
  an entry and \<open>reassign_devices\<close> resets it to \<open>None\<close>).\<close>

definition ex_stale :: solution where
  "ex_stale = ex_solution\<lparr>assignment_map := [(0, Some 0), (1, Some 0), (2, Some 0), (99, None)]\<rparr>"

text \<open>An engine whose population is the object 0 of the small scenario and whose
  incumbent is the object 1, a copy of it.\<close>

definition ex_ga :: ga_fields where
  "ex_ga = new_ga\<lparr>population := [0], best_solution := Some 1\<rparr>"

definition ex_state2 :: state where
  "ex_state2 = ex_state\<lparr>next_ref := 2\<rparr>"

text \<open>A scenario with one device, 5 away from the only candidate site, and an engine
  with a population of one that runs one generation.\<close>

definition ex7_problem :: problem where
  "ex7_problem =
     \<lparr>devices = [ex_device 0 0],
      candidate_points = [\<lparr>cp_id = 0, cp_x = 5, cp_y = 0, placement_cost_factor = 1\<rparr>],
      cloudlet_types = [ex_type],
      device_to_candidate_distances = [(0, 0) \<mapsto> 5]\<rparr>"

definition ex7_cfg :: ga_config where
  "ex7_cfg = \<lparr>ga_problem = ex7_problem, population_size = 1, generations = 1,
     crossover_rate = 4/5, mutation_rate = 1/5, ga_alpha = 1/2, use_sa = True\<rparr>"

section \<open>Auxiliary notions for the proofs about evaluate\<close>

definition entry_ok :: "(int, int option) dict \<Rightarrow> int \<times> int option \<Rightarrow> bool" where
  "entry_ok pm e = (case snd e of None \<Rightarrow> False | Some c \<Rightarrow> dict_get pm c \<noteq> None)"

definition occupied_in :: "(int, int option) dict \<Rightarrow> int \<Rightarrow> bool" where
  "occupied_in pm c = (\<exists>t. (c, Some t) \<in> set pm)"

definition zero_usage :: usage where
  "zero_usage = \<lparr>cpu = 0, memory = 0, storage = 0\<rparr>"

definition dev_ok :: "problem \<Rightarrow> solution \<Rightarrow> device \<Rightarrow> bool" where
  "dev_ok p s d =
     (case dict_get (assignment_map s) (dev_id d) of
        None \<Rightarrow> False
      | Some c \<Rightarrow>
          (case dict_get (placement_map s) c of
             None \<Rightarrow> False
           | Some t \<Rightarrow>
               (case py_index (cloudlet_types p) t of
                  Inl e \<Rightarrow> False
                | Inr ct \<Rightarrow> get_distance p (dev_id d) c \<le> Fin (coverage_radius ct))))"

definition covered_at :: "problem \<Rightarrow> solution \<Rightarrow> int \<Rightarrow> device \<Rightarrow> bool" where
  "covered_at p s c d = (dict_get (assignment_map s) (dev_id d) = Some c \<and> dev_ok p s d)"

definition add_usage :: "usage \<Rightarrow> device list \<Rightarrow> usage" where
  "add_usage u ds =
     \<lparr>cpu = fold (\<lambda>d acc. float_add acc (cpu_demand d)) ds (cpu u),
      memory = fold (\<lambda>d acc. float_add acc (memory_demand d)) ds (memory u),
      storage = fold (\<lambda>d acc. float_add acc (storage_demand d)) ds (storage u)\<rparr>"

definition within_capacity :: "usage \<Rightarrow> cloudlet_type \<Rightarrow> bool" where
  "within_capacity u ct =
     (cpu u \<le> cpu_capacity ct \<and> memory u \<le> memory_capacity ct \<and> storage u \<le> storage_capacity ct)"

definition usage_ok :: "problem \<Rightarrow> (int, int option) dict \<Rightarrow> int \<times> usage \<Rightarrow> bool" where
  "usage_ok p pm e =
     (case dict_get pm (fst e) of
        None \<Rightarrow> False
      | Some t \<Rightarrow>
          (case py_index (cloudlet_types p) t of
             Inl x \<Rightarrow> False
           | Inr ct \<Rightarrow> within_capacity (snd e) ct))"

section \<open>Auxiliary notions for the proofs about the objects\<close>

text \<open>\<open>preserves n st st'\<close>: no object is lost and the objects below address \<open>n\<close> are as
  before. \<open>fresh_in st r st'\<close>: the object \<open>r\<close> was allocated between the two states.\<close>

definition preserves :: "nat \<Rightarrow> state \<Rightarrow> state \<Rightarrow> bool" where
  "preserves n st st' = (next_ref st \<le> next_ref st' \<and> (\<forall>r<n. store st' r = store st r))"

definition fresh_in :: "state \<Rightarrow> ref \<Rightarrow> state \<Rightarrow> bool" where
  "fresh_in st r st' = (next_ref st \<le> r \<and> r < next_ref st')"

section \<open>Predicates of the repair proofs\<close>






section \<open>Invariants of the loop over the generations\<close>

text \<open>The incumbent has the value of the feasible member that \<open>min\<close> returns; before
  \<open>update_best_solution\<close> runs it has the value of the first feasible member; and the
  members of the population are objects of the store.\<close>

definition incumbent_is_best :: "ga_fields \<Rightarrow> state \<Rightarrow> bool" where
  "incumbent_is_best ga st =
     (case feasible_members st (population ga) of
        [] \<Rightarrow> best_solution ga = None
      | r # rs \<Rightarrow>
          (\<exists>b. best_solution ga = Some b \<and> b < next_ref st
             \<and> store st b = store st (min_by (\<lambda>r. fitness (store st r)) r rs)))"

definition incumbent_at_head :: "ga_fields \<Rightarrow> state \<Rightarrow> bool" where
  "incumbent_at_head ga st =
     (best_solution ga = None
      \<or> (\<exists>b r rs. best_solution ga = Some b \<and> b < next_ref st
            \<and> feasible_members st (population ga) = r # rs \<and> store st b = store st r))"

definition engine_inv :: "ga_config \<Rightarrow> ga_fields \<Rightarrow> state \<Rightarrow> bool" where
  "engine_inv cfg ga st =
     ((\<forall>r \<in> set (population ga). r < next_ref st)
      \<and> (population_size cfg \<le> 0 \<longrightarrow> population ga = [])
      \<and> incumbent_is_best ga st)"

section \<open>Rounded sums\<close>

text \<open>Rounding leaves a whole number below \<open>2\<^sup>5\<^sup>3\<close> as it is, so the sums of whole
  demands are exact; above, an addend can be lost.\<close>

lemma round_half_even_of_int: "round_half_even (of_int n) = n"
  by (simp add: round_half_even_def)

lemma round_to_double_zero: "round_to_double 0 = 0"
  by (simp add: round_to_double_def)

lemma round_to_double_grid:
  assumes "x / 2 powr (of_int \<lfloor>log 2 \<bar>x\<bar>\<rfloor> - 52) = of_int n"
  shows "round_to_double x = x"
proof (cases "x = 0")
  case True
  then show ?thesis by (simp add: round_to_double_def)
next
  case False
  let ?u = "2 powr (of_int \<lfloor>log 2 \<bar>x\<bar>\<rfloor> - 52) :: real"
  have u: "?u > 0" by simp
  from assms have "x = of_int n * ?u" using u by (simp add: field_simps)
  moreover have "round_to_double x = of_int (round_half_even (x / ?u)) * ?u"
    using False by (simp add: round_to_double_def Let_def)
  ultimately show ?thesis using assms by (simp add: round_half_even_of_int)
qed

lemma log2_pow: "log 2 (2 ^ n :: real) = real n"
  by (rule log_pow_cancel) simp_all

lemma round_to_double_int:
  assumes "\<bar>real_of_int k\<bar> < 2 ^ 53"
  shows "round_to_double (of_int k) = of_int k"
proof (cases "k = 0")
  case True
  then show ?thesis by (simp add: round_to_double_zero)
next
  case False
  let ?x = "real_of_int k"
  let ?e = "\<lfloor>log 2 \<bar>?x\<bar>\<rfloor>"
  from False have "1 \<le> \<bar>k\<bar>" by simp
  then have one: "1 \<le> \<bar>?x\<bar>" by (metis of_int_1_le_iff of_int_abs)
  then have "0 \<le> log 2 \<bar>?x\<bar>" by simp
  then have e0: "0 \<le> ?e" by simp
  have "log 2 \<bar>?x\<bar> < log 2 (2 ^ 53)"
    using assms one by (subst log_less_cancel_iff) auto
  then have "log 2 \<bar>?x\<bar> < 53" by (simp only: log2_pow of_nat_numeral)
  then have e52: "?e \<le> 52" by linarith
  define m where "m = nat (52 - ?e)"
  have "real_of_int ?e - 52 = - real m" using e52 by (simp add: m_def)
  then have "(2 :: real) powr (real_of_int ?e - 52) = 2 powr (- real m)" by simp
  also have "\<dots> = 1 / 2 ^ m" by (simp add: powr_minus powr_realpow field_simps)
  finally have "?x / 2 powr (real_of_int ?e - 52) = of_int (k * 2 ^ m)" by simp
  then show ?thesis by (rule round_to_double_grid)
qed

lemma float_add_int:
  assumes "x + y = of_int k" and "\<bar>real_of_int k\<bar> < 2 ^ 53"
  shows "float_add x y = x + y"
  using round_to_double_int [OF assms(2)] assms(1) by (simp add: float_add_def)

lemma float_add_nat:
  assumes "x \<in> \<nat>" and "y \<in> \<nat>" and "x + y < 2 ^ 53"
  shows "float_add x y = x + y"
proof -
  from assms(1,2) obtain a b where ab: "x = real a" "y = real b" by (auto elim!: Nats_cases)
  have "x + y = of_int (int (a + b))" by (simp add: ab)
  moreover have "\<bar>real_of_int (int (a + b))\<bar> < 2 ^ 53" using assms(3) ab by simp
  ultimately show ?thesis by (rule float_add_int)
qed



lemma round_to_double_pow: "round_to_double (2 ^ n) = 2 ^ n"
proof -
  have "\<bar>2 ^ n :: real\<bar> = 2 ^ n" by simp
  then have "\<lfloor>log 2 \<bar>2 ^ n :: real\<bar>\<rfloor> = int n" by (simp only: log2_pow floor_of_nat)
  then have "(2 ^ n :: real) / 2 powr (of_int \<lfloor>log 2 \<bar>2 ^ n :: real\<bar>\<rfloor> - 52) = of_int (2 ^ 52)"
    by (simp add: powr_diff powr_realpow)
  then show ?thesis by (rule round_to_double_grid)
qed

lemma float_add_absorbs: "float_add (2 ^ 53) 1 = 2 ^ 53"
proof -
  define P :: real where "P = 2 ^ 53"
  have P: "0 < P" "log 2 P = 53" "P + 1 < 2 * P" "\<lfloor>P / 2\<rfloor> = 2 ^ 52" "even (\<lfloor>P / 2\<rfloor>)"
       "P / 2 = of_int (2 ^ 52)"
    unfolding P_def using log2_pow [of 53] by simp_all
  have "\<lfloor>log 2 \<bar>P + 1\<bar>\<rfloor> = 53"
  proof (rule floor_unique)
    have "log 2 P \<le> log 2 (P + 1)" using P(1) by (subst log_le_cancel_iff) auto
    then show "of_int 53 \<le> log 2 \<bar>P + 1\<bar>" using P by simp
    have "log 2 (P + 1) < log 2 (2 * P)" using P(1,3) by (subst log_less_cancel_iff) auto
    also have "\<dots> = 1 + log 2 P" using P(1) by (simp add: log_mult)
    finally show "log 2 \<bar>P + 1\<bar> < of_int 53 + 1" using P by simp
  qed
  then have u: "2 powr (of_int \<lfloor>log 2 \<bar>P + 1\<bar>\<rfloor> - 52) = (2 :: real)" by simp
  have f: "\<lfloor>(P + 1) / 2\<rfloor> = \<lfloor>P / 2\<rfloor>"
    using P(6) by (intro floor_unique) (simp_all add: add_divide_distrib)
  have r: "(P + 1) / 2 - of_int \<lfloor>P / 2\<rfloor> = 1 / 2"
    using P(6) by (simp add: add_divide_distrib)
  have "round_half_even ((P + 1) / 2) = \<lfloor>P / 2\<rfloor>"
    unfolding round_half_even_def Let_def f r using P(5) by simp
  with P(6) have "of_int (round_half_even ((P + 1) / 2)) * 2 = P" by simp
  moreover have "P + 1 \<noteq> 0" using P(1) by simp
  ultimately have "float_add P 1 = P"
    by (simp add: float_add_def round_to_double_def Let_def u)
  then show ?thesis by (simp add: P_def)
qed

lemma float_sum_map: "float_sum (map f ds) = fold (\<lambda>d acc. float_add acc (f d)) ds 0"
  by (simp add: float_sum_def fold_map comp_def)

section \<open>The loops of evaluate\<close>

lemma entries_loop_eq: "entries_loop pm am feas = (feas \<and> list_all (entry_ok pm) am)"
  by (induction pm am feas rule: entries_loop.induct) (auto simp: entry_ok_def split: option.splits)

lemma sites_loop_usage:
  "sites_loop p pm (cost, ru) = Inr (cost', ru') \<Longrightarrow>
     map_of ru' c = (if occupied_in pm c then Some zero_usage else map_of ru c)"
proof (induction p pm "(cost, ru)" arbitrary: cost ru rule: sites_loop.induct)
  case (1 p)
  then show ?case by (simp add: occupied_in_def)
next
  case (2 p candidate_id rest)
  then show ?case by (auto simp: occupied_in_def)
next
  case (3 p candidate_id cloudlet_type_id rest cost resource_usage)
  then show ?case
    by (auto simp: occupied_in_def dict_set_def update_conv' zero_usage_def split: sum.splits option.splits if_splits)
qed

lemma sites_loop_types:
  "sites_loop p pm (cost, ru) = Inr (cost', ru') \<Longrightarrow> (c, Some t) \<in> set pm \<Longrightarrow>
     \<exists>ct. py_index (cloudlet_types p) t = Inr ct"
proof (induction p pm "(cost, ru)" arbitrary: cost ru rule: sites_loop.induct)
  case (3 p candidate_id cloudlet_type_id rest cost resource_usage)
  then show ?case
    by (auto split: sum.splits option.splits)
qed auto

lemma sites_loop_distinct:
  "sites_loop p pm (cost, ru) = Inr (cost', ru') \<Longrightarrow> distinct (map fst ru) \<Longrightarrow> distinct (map fst ru')"
proof (induction p pm "(cost, ru)" arbitrary: cost ru rule: sites_loop.induct)
  case (3 p candidate_id cloudlet_type_id rest cost resource_usage)
  then show ?case
    by (auto simp: dict_set_def distinct_update split: sum.splits option.splits)
qed auto

lemma le_Fin_iff: "(x \<le> Fin r) = (case x of Fin v \<Rightarrow> v \<le> r | PInf \<Rightarrow> False)"
  by (cases x) auto

lemma add_usage_Nil: "add_usage u [] = u"
  by (simp add: add_usage_def)

lemma add_usage_Cons:
  "add_usage \<lparr>cpu = float_add (cpu u) (cpu_demand d), memory = float_add (memory u) (memory_demand d),
      storage = float_add (storage u) (storage_demand d)\<rparr> ds = add_usage u (d # ds)"
  by (simp add: add_usage_def)

lemma devices_loop_skip:
  assumes "\<not> dev_ok p s d"
    and "devices_loop p s (d # ds) (feas, ru, lat) = Inr r"
  shows "devices_loop p s ds (False, ru, lat) = Inr r"
  using assms
  by (auto simp: dev_ok_def le_Fin_iff split: option.splits sum.splits pyfloat.splits if_splits)

lemma devices_loop_take:
  assumes "dev_ok p s d"
    and "devices_loop p s (d # ds) (feas, ru, lat) = Inr r"
  shows "\<exists>cid u dv. dict_get (assignment_map s) (dev_id d) = Some cid \<and> map_of ru cid = Some u
           \<and> devices_loop p s ds
               (feas, dict_set ru cid \<lparr>cpu = float_add (cpu u) (cpu_demand d),
                  memory = float_add (memory u) (memory_demand d),
                  storage = float_add (storage u) (storage_demand d)\<rparr>, lat + dv) = Inr r"
  using assms
  by (auto simp: dev_ok_def le_Fin_iff dict_item_def
      split: option.splits sum.splits pyfloat.splits if_splits)

lemma devices_loop_feas:
  "devices_loop p s ds (feas, ru, lat) = Inr (feas', ru', lat') \<Longrightarrow>
     feas' = (feas \<and> list_all (dev_ok p s) ds)"
proof (induction ds arbitrary: feas ru lat)
  case Nil
  then show ?case by simp
next
  case (Cons d ds)
  show ?case
  proof (cases "dev_ok p s d")
    case False
    from Cons.IH [OF devices_loop_skip [OF False Cons.prems]] False show ?thesis by simp
  next
    case True
    from devices_loop_take [OF True Cons.prems] obtain cid and u :: usage and dv where
      "devices_loop p s ds
               (feas, dict_set ru cid \<lparr>cpu = float_add (cpu u) (cpu_demand d),
                  memory = float_add (memory u) (memory_demand d),
                  storage = float_add (storage u) (storage_demand d)\<rparr>, lat + dv) = Inr (feas', ru', lat')"
      by blast
    from Cons.IH [OF this] True show ?thesis by simp
  qed
qed

lemma devices_loop_usage:
  "devices_loop p s ds (feas, ru, lat) = Inr (feas', ru', lat') \<Longrightarrow>
     map_of ru' c = map_option (\<lambda>u. add_usage u (filter (covered_at p s c) ds)) (map_of ru c)"
proof (induction ds arbitrary: feas ru lat)
  case Nil
  then show ?case by (simp add: add_usage_Nil option.map_ident)
next
  case (Cons d ds)
  show ?case
  proof (cases "dev_ok p s d")
    case False
    then have "filter (covered_at p s c) (d # ds) = filter (covered_at p s c) ds"
      by (simp add: covered_at_def)
    with Cons.IH [OF devices_loop_skip [OF False Cons.prems]] show ?thesis by simp
  next
    case True
    from devices_loop_take [OF True Cons.prems] obtain cid and u :: usage and dv where
      a: "dict_get (assignment_map s) (dev_id d) = Some cid" and
      u: "map_of ru cid = Some u" and
      step: "devices_loop p s ds
          (feas, dict_set ru cid \<lparr>cpu = float_add (cpu u) (cpu_demand d), memory = float_add (memory u) (memory_demand d),
             storage = float_add (storage u) (storage_demand d)\<rparr>, lat + dv) = Inr (feas', ru', lat')"
      by blast
    show ?thesis
    proof (cases "c = cid")
      case eq: True
      with Cons.IH [OF step] u a True show ?thesis
        by (simp add: dict_set_def update_conv' covered_at_def add_usage_Cons)
    next
      case False
      with Cons.IH [OF step] a show ?thesis
        by (simp add: dict_set_def update_conv' covered_at_def)
    qed
  qed
qed

lemma devices_loop_distinct:
  "devices_loop p s ds (feas, ru, lat) = Inr (feas', ru', lat') \<Longrightarrow>
     distinct (map fst ru) \<Longrightarrow> distinct (map fst ru')"
proof (induction ds arbitrary: feas ru lat)
  case Nil
  then show ?case by simp
next
  case (Cons d ds)
  show ?case
  proof (cases "dev_ok p s d")
    case False
    from Cons.IH [OF devices_loop_skip [OF False Cons.prems(1)] Cons.prems(2)] show ?thesis .
  next
    case True
    from devices_loop_take [OF True Cons.prems(1)] obtain cid and u :: usage and dv where
      step: "devices_loop p s ds
          (feas, dict_set ru cid \<lparr>cpu = float_add (cpu u) (cpu_demand d), memory = float_add (memory u) (memory_demand d),
             storage = float_add (storage u) (storage_demand d)\<rparr>, lat + dv) = Inr (feas', ru', lat')"
      by blast
    from Cons.IH [OF step] Cons.prems(2) show ?thesis
      by (simp add: dict_set_def distinct_update)
  qed
qed

lemma usage_loop_feas:
  "usage_loop p pm ru feas = Inr feas' \<Longrightarrow> feas' = (feas \<and> list_all (usage_ok p pm) ru)"
proof (induction ru)
  case Nil
  then show ?case by simp
next
  case (Cons e ru)
  obtain c u where e: "e = (c, u)" by (cases e)
  from Cons show ?case unfolding e
    by (auto simp: usage_ok_def within_capacity_def dict_item_def dict_get_def
        split: option.splits sum.splits if_splits)
qed

lemma dict_get_Some_iff:
  "distinct (map fst m) \<Longrightarrow> (dict_get m k = Some v) = ((k, Some v) \<in> set m)"
proof -
  assume d: "distinct (map fst m)"
  have "(dict_get m k = Some v) = (map_of m k = Some (Some v))"
    by (simp add: dict_get_def split: option.splits)
  with map_of_eq_Some_iff [OF d, of k "Some v"] show ?thesis by simp
qed

lemma dict_get_SomeD: "dict_get m k = Some v \<Longrightarrow> (k, Some v) \<in> set m"
  by (auto simp: dict_get_def split: option.splits dest: map_of_SomeD)

lemma get_devices_assigned_to_filter:
  assumes "distinct (map fst (assignment_map s))"
  shows "get_devices_assigned_to p s c
           = filter (\<lambda>d. dict_get (assignment_map s) (dev_id d) = Some c) (devices p)"
proof -
  have "\<And>k. (k \<in> set (map fst (filter (\<lambda>(d_id, c_id). c_id = Some c) (assignment_map s))))
          = (dict_get (assignment_map s) k = Some c)"
    using assms by (force simp: dict_get_Some_iff)
  then show ?thesis
    by (simp add: get_devices_assigned_to_def)
qed

lemma occupied_in_iff:
  "distinct (map fst pm) \<Longrightarrow> occupied_in pm c = (\<exists>t. dict_get pm c = Some t)"
  by (auto simp: occupied_in_def dict_get_Some_iff)

lemma list_all_map_of:
  assumes "distinct (map fst ru)"
  shows "list_all P ru = (\<forall>c u. map_of ru c = Some u \<longrightarrow> P (c, u))"
  using assms by (auto simp: list_all_iff dest: map_of_SomeD)

section \<open>What the operators touch\<close>

lemma preserves_refl: "preserves n st st"
  by (simp add: preserves_def)

lemma preserves_trans: "preserves n a b \<Longrightarrow> preserves n b c \<Longrightarrow> preserves n a c"
  by (simp add: preserves_def)

lemma preserves_mono: "preserves n a b \<Longrightarrow> m \<le> n \<Longrightarrow> preserves m a b"
  by (simp add: preserves_def)

lemma clone_id: "clone s = s"
  by (simp add: clone_def)

lemma draw_frame: "draw st = (x, st') \<Longrightarrow> store st' = store st \<and> next_ref st' = next_ref st"
  by (auto simp: draw_def)

lemma random_random_frame:
  "random_random st = (x, st') \<Longrightarrow> store st' = store st \<and> next_ref st' = next_ref st"
  by (auto simp: random_random_def draw_def Let_def split: prod.splits)

lemma random_randint_frame:
  "random_randint a b st = Inr (x, st') \<Longrightarrow> store st' = store st \<and> next_ref st' = next_ref st"
  by (auto simp: random_randint_def draw_def Let_def split: prod.splits if_splits)

lemma random_choice_frame:
  "random_choice xs st = Inr (x, st') \<Longrightarrow> store st' = store st \<and> next_ref st' = next_ref st"
  by (auto simp: random_choice_def draw_def Let_def split: prod.splits if_splits)

lemma random_choice_mem:
  "random_choice xs st = Inr (x, st') \<Longrightarrow> x \<in> set xs"
  by (auto simp: random_choice_def draw_def Let_def split: prod.splits if_splits)

lemma sample_loop_frame:
  "sample_loop xs k st = (ys, st') \<Longrightarrow> store st' = store st \<and> next_ref st' = next_ref st"
proof (induction xs k st arbitrary: ys st' rule: sample_loop.induct)
  case (3 x xs k st)
  obtain raw st1 where d: "draw st = (raw, st1)" by (cases "draw st")
  obtain rest st2 where r: "sample_loop (take (raw mod length (x # xs)) (x # xs)
      @ drop (Suc (raw mod length (x # xs))) (x # xs)) k st1 = (rest, st2)"
    by (cases "sample_loop (take (raw mod length (x # xs)) (x # xs)
      @ drop (Suc (raw mod length (x # xs))) (x # xs)) k st1")
  from "3.IH" [OF d [symmetric] refl refl r] draw_frame [OF d] "3.prems" d r
  show ?case by (simp add: Let_def)
qed simp_all

lemma sample_loop_subset:
  "sample_loop xs k st = (ys, st') \<Longrightarrow> set ys \<subseteq> set xs"
proof (induction xs k st arbitrary: ys st' rule: sample_loop.induct)
  case (3 x xs k st)
  obtain raw st1 where d: "draw st = (raw, st1)" by (cases "draw st")
  let ?i = "raw mod length (x # xs)"
  obtain rest st2 where r: "sample_loop (take ?i (x # xs) @ drop (Suc ?i) (x # xs)) k st1 = (rest, st2)"
    by (cases "sample_loop (take ?i (x # xs) @ drop (Suc ?i) (x # xs)) k st1")
  have i: "?i < length (x # xs)" by simp
  have "set rest \<subseteq> set (take ?i (x # xs) @ drop (Suc ?i) (x # xs))"
    using "3.IH" [OF d [symmetric] refl refl r] .
  also have "\<dots> \<subseteq> set (x # xs)"
    using set_take_subset [of ?i "x # xs"] set_drop_subset [of "Suc ?i" "x # xs"] by auto
  finally have "set rest \<subseteq> set (x # xs)" .
  moreover have "(x # xs) ! ?i \<in> set (x # xs)" using i by (rule nth_mem)
  ultimately show ?case using "3.prems" d r by (auto simp: Let_def)
qed auto

lemma random_sample_frame:
  "random_sample xs k st = Inr (ys, st') \<Longrightarrow> store st' = store st \<and> next_ref st' = next_ref st"
  by (auto simp: random_sample_def dest: sample_loop_frame split: if_splits)

lemma random_sample_subset:
  "random_sample xs k st = Inr (ys, st') \<Longrightarrow> set ys \<subseteq> set xs"
  by (auto simp: random_sample_def dest: sample_loop_subset split: if_splits)

lemma random_shuffle_frame:
  "random_shuffle xs st = (ys, st') \<Longrightarrow> store st' = store st \<and> next_ref st' = next_ref st"
  by (auto simp: random_shuffle_def dest: sample_loop_frame)

lemma new_object_frame:
  "new_object v st = (r, st') \<Longrightarrow>
     r = next_ref st \<and> next_ref st' = Suc (next_ref st) \<and> store st' = (store st)(r := v)"
  by (auto simp: new_object_def)

lemma clone_obj_frame:
  "clone_obj r0 st = (r, st') \<Longrightarrow>
     r = next_ref st \<and> next_ref st' = Suc (next_ref st) \<and> store st' = (store st)(r := store st r0)"
  by (auto simp: clone_obj_def new_object_def clone_id)

lemma modify_obj_frame:
  "modify_obj r f st = Inr st' \<Longrightarrow>
     next_ref st' = next_ref st \<and> rng st' = rng st
     \<and> (\<exists>s'. f (store st r) = Inr s' \<and> store st' = (store st)(r := s'))"
  by (auto simp: modify_obj_def split: sum.splits)

lemma preserves_modify:
  "modify_obj r f st = Inr st' \<Longrightarrow> n \<le> r \<Longrightarrow> preserves n st st'"
  by (auto simp: preserves_def dest!: modify_obj_frame)

lemma preserves_store_upd:
  "n \<le> r \<Longrightarrow> preserves n st (st\<lparr>store := (store st)(r := v)\<rparr>)"
  by (simp add: preserves_def)

lemma preserves_same_store:
  "store st' = store st \<Longrightarrow> next_ref st' = next_ref st \<Longrightarrow> preserves n st st'"
  by (simp add: preserves_def)

lemma preserves_clone:
  "clone_obj r0 st = (r, st') \<Longrightarrow> n \<le> next_ref st \<Longrightarrow> preserves n st st'"
  by (auto simp: preserves_def dest!: clone_obj_frame)

lemma preserves_new:
  "new_object v st = (r, st') \<Longrightarrow> n \<le> next_ref st \<Longrightarrow> preserves n st st'"
  by (auto simp: preserves_def dest!: new_object_frame)

lemma preserves_next: "preserves n st st' \<Longrightarrow> next_ref st \<le> next_ref st'"
  by (simp add: preserves_def)

lemma clone_then_modify:
  assumes c: "clone_obj r0 st = (r, st1)" and m: "modify_obj r f st1 = Inr st2"
  shows "preserves (next_ref st) st st2 \<and> fresh_in st r st2
       \<and> next_ref st2 = Suc (next_ref st) \<and> rng st2 = rng st
       \<and> (\<exists>s'. f (store st r0) = Inr s' \<and> store st2 = (store st)(r := s'))"
proof -
  from clone_obj_frame [OF c] have r: "r = next_ref st" and n: "next_ref st1 = Suc (next_ref st)"
    and s: "store st1 = (store st)(r := store st r0)" by simp_all
  have g: "rng st1 = rng st" using c by (auto simp: clone_obj_def new_object_def)
  from modify_obj_frame [OF m] obtain s' where
    "next_ref st2 = next_ref st1" "rng st2 = rng st1" "f (store st1 r) = Inr s'"
    "store st2 = (store st1)(r := s')" by blast
  with r n s g show ?thesis
    by (auto simp: preserves_def fresh_in_def)
qed

lemma repair_solution_frame:
  assumes "repair_solution cfg solution st = Inr (r, st')"
  shows "preserves (next_ref st) st st' \<and> fresh_in st r st' \<and> rng st' = rng st
       \<and> (\<exists>s'. repair_body (ga_problem cfg) (ga_alpha cfg) (store st solution) = Inr s'
              \<and> store st' = (store st)(r := s'))"
proof -
  obtain r1 st1 where c: "clone_obj solution st = (r1, st1)" by (cases "clone_obj solution st")
  with assms have "modify_obj r1 (repair_body (ga_problem cfg) (ga_alpha cfg)) st1 = Inr st'"
    and "r = r1"
    by (auto simp: repair_solution_def split: sum.splits)
  with clone_then_modify [OF c] show ?thesis by blast
qed

lemma reassign_devices_frame:
  assumes "reassign_devices cfg solution st = Inr (r, st')"
  shows "preserves (next_ref st) st st' \<and> fresh_in st r st' \<and> rng st' = rng st
       \<and> (\<exists>s'. reassign_body (ga_problem cfg) (store st solution) = Inr s'
              \<and> store st' = (store st)(r := s'))"
proof -
  obtain r1 st1 where c: "clone_obj solution st = (r1, st1)" by (cases "clone_obj solution st")
  with assms have "modify_obj r1 (reassign_body (ga_problem cfg)) st1 = Inr st'"
    and "r = r1"
    by (auto simp: reassign_devices_def split: sum.splits)
  with clone_then_modify [OF c] show ?thesis by blast
qed

lemma evaluate_obj_frame:
  assumes "evaluate_obj cfg r st = Inr (r', st')"
  shows "r' = r \<and> next_ref st' = next_ref st \<and> rng st' = rng st
       \<and> (\<exists>s'. evaluate (ga_problem cfg) (ga_alpha cfg) (store st r) = Inr s'
              \<and> store st' = (store st)(r := s'))"
  using assms by (auto simp: evaluate_obj_def split: sum.splits dest!: modify_obj_frame)

lemma evaluate_obj_preserves:
  "evaluate_obj cfg r st = Inr (r', st') \<Longrightarrow> n \<le> r \<Longrightarrow> preserves n st st'"
  by (auto simp: preserves_def dest!: evaluate_obj_frame)

lemma evaluate_pair_frame:
  assumes "evaluate_pair cfg c1 c2 st = Inr ((c1', c2'), st')"
  shows "c1' = c1 \<and> c2' = c2 \<and> next_ref st' = next_ref st \<and> rng st' = rng st
       \<and> (\<forall>r. r \<noteq> c1 \<longrightarrow> r \<noteq> c2 \<longrightarrow> store st' r = store st r)"
  using assms
  by (auto simp: evaluate_pair_def split: sum.splits dest!: modify_obj_frame)

lemma evaluate_pair_preserves:
  "evaluate_pair cfg c1 c2 st = Inr (res, st') \<Longrightarrow> n \<le> c1 \<Longrightarrow> n \<le> c2 \<Longrightarrow> preserves n st st'"
  by (cases res) (auto simp: preserves_def dest!: evaluate_pair_frame)

lemma swap_genes_frame:
  "swap_genes ks p1 p2 c1 c2 st = Inr st' \<Longrightarrow>
     next_ref st' = next_ref st \<and> rng st' = rng st
     \<and> (\<forall>r. r \<noteq> c1 \<longrightarrow> r \<noteq> c2 \<longrightarrow> store st' r = store st r)"
proof (induction ks arbitrary: st)
  case Nil
  then show ?case by simp
next
  case (Cons k ks)
  then show ?case
    by (auto simp: Let_def split: sum.splits dest!: Cons.IH)
qed

lemma swap_genes_preserves:
  "swap_genes ks p1 p2 c1 c2 st = Inr st' \<Longrightarrow> n \<le> c1 \<Longrightarrow> n \<le> c2 \<Longrightarrow> preserves n st st'"
  by (auto simp: preserves_def dest!: swap_genes_frame)

lemma fresh_in_mono:
  "fresh_in a r b \<Longrightarrow> next_ref a0 \<le> next_ref a \<Longrightarrow> next_ref b \<le> next_ref b1 \<Longrightarrow> fresh_in a0 r b1"
  by (simp add: fresh_in_def)

lemma crossover_frame:
  assumes "crossover cfg parent1 parent2 st = Inr ((c1, c2), st')"
  shows "preserves (next_ref st) st st' \<and> fresh_in st c1 st' \<and> fresh_in st c2 st' \<and> c1 \<noteq> c2"
proof -
  let ?n = "next_ref st"
  obtain child1 st1 where k1: "clone_obj parent1 st = (child1, st1)" by (cases "clone_obj parent1 st")
  obtain child2 st2 where k2: "clone_obj parent2 st1 = (child2, st2)" by (cases "clone_obj parent2 st1")
  obtain r st3 where rr: "random_random st2 = (r, st3)" by (cases "random_random st2")
  from clone_obj_frame [OF k1] have c1: "child1 = ?n" and n1: "next_ref st1 = Suc ?n" by simp_all
  from clone_obj_frame [OF k2] n1 have c2: "child2 = Suc ?n" and n2: "next_ref st2 = Suc (Suc ?n)"
    by simp_all
  from random_random_frame [OF rr] n2 have n3: "next_ref st3 = Suc (Suc ?n)"
    and s3: "store st3 = store st2" by simp_all
  have p3: "preserves ?n st st3"
    using preserves_trans [OF preserves_clone [OF k1 order_refl] preserves_trans
        [OF preserves_clone [OF k2] preserves_same_store [OF s3]]] n1 n2 n3 by simp
  have plain: ?thesis if e: "evaluate_pair cfg child1 child2 st3 = Inr ((c1, c2), st')"
  proof -
    from evaluate_pair_frame [OF e] have "c1 = child1" "c2 = child2" "next_ref st' = next_ref st3"
      by simp_all
    moreover have "preserves ?n st3 st'"
      using evaluate_pair_preserves [OF e, of ?n] c1 c2 by simp
    ultimately show ?thesis
      using preserves_trans [OF p3] c1 c2 n3 by (simp add: fresh_in_def)
  qed
  show ?thesis
  proof (cases "r < crossover_rate cfg \<and> 2 \<le> length (map fst (placement_map (store st3 parent1)))")
    case False
    with assms k1 k2 rr have "evaluate_pair cfg child1 child2 st3 = Inr ((c1, c2), st')"
      by (auto simp: crossover_def Let_def split: if_splits)
    then show ?thesis by (rule plain)
  next
    case True
    let ?keys = "map fst (placement_map (store st3 parent1))"
    from True assms k1 k2 rr obtain p1 st4 p2 st5 st6 d1 st7 d2 st8 where
      r1: "random_randint 0 (int (length ?keys) - 2) st3 = Inr (p1, st4)" and
      r2: "random_randint (p1 + 1) (int (length ?keys) - 1) st4 = Inr (p2, st5)" and
      sw: "swap_genes (take (nat (p2 + 1 - p1)) (drop (nat p1) ?keys)) parent1 parent2 child1 child2 st5
             = Inr st6" and
      ra1: "reassign_devices cfg child1 st6 = Inr (d1, st7)" and
      ra2: "reassign_devices cfg child2 st7 = Inr (d2, st8)" and
      e: "evaluate_pair cfg d1 d2 st8 = Inr ((c1, c2), st')"
      by (auto simp: crossover_def Let_def split: sum.splits prod.splits)
    from random_randint_frame [OF r1] n3 s3 have n4: "next_ref st4 = Suc (Suc ?n)"
      and s4: "store st4 = store st3" by simp_all
    from random_randint_frame [OF r2] n4 have n5: "next_ref st5 = Suc (Suc ?n)"
      and s5: "store st5 = store st4" by simp_all
    from swap_genes_frame [OF sw] n5 have n6: "next_ref st6 = Suc (Suc ?n)" by simp
    have p6: "preserves ?n st5 st6"
      using swap_genes_preserves [OF sw, of ?n] c1 c2 by simp
    from reassign_devices_frame [OF ra1] have p7: "preserves (next_ref st6) st6 st7"
      and f7: "fresh_in st6 d1 st7" by simp_all
    from reassign_devices_frame [OF ra2] have p8: "preserves (next_ref st7) st7 st8"
      and f8: "fresh_in st7 d2 st8" by simp_all
    from evaluate_pair_frame [OF e] have eq: "c1 = d1" "c2 = d2" and n9: "next_ref st' = next_ref st8"
      by simp_all
    have le67: "next_ref st6 \<le> next_ref st7" using p7 by (rule preserves_next)
    have le78: "next_ref st7 \<le> next_ref st8" using p8 by (rule preserves_next)
    have p9: "preserves ?n st8 st'"
      using evaluate_pair_preserves [OF e, of ?n] f7 f8 n6 le67 by (simp add: fresh_in_def)
    have "preserves ?n st3 st5"
      using s4 s5 n3 n4 n5 by (simp add: preserves_def)
    with p3 p6 have "preserves ?n st st6" by (blast intro: preserves_trans)
    moreover have "preserves ?n st6 st7" using p7 n6 by (auto intro: preserves_mono)
    moreover have "preserves ?n st7 st8" using p8 n6 le67 by (auto intro: preserves_mono)
    ultimately have "preserves ?n st st'" using p9 by (blast intro: preserves_trans)
    moreover have "fresh_in st c1 st'" "fresh_in st c2 st'" "c1 \<noteq> c2"
      using f7 f8 eq n6 n9 le67 le78 by (auto simp: fresh_in_def)
    ultimately show ?thesis by simp
  qed
qed

lemma apply_mutation_frame:
  assumes "apply_mutation p mt mutated st = Inr st'"
  shows "next_ref st' = next_ref st \<and> (\<forall>r. r \<noteq> mutated \<longrightarrow> store st' r = store st r)"
proof (cases mt)
  case Add
  with assms show ?thesis
    by (auto split: sum.splits list.splits dest!: random_choice_frame)
next
  case Remove
  with assms show ?thesis
    by (auto split: sum.splits list.splits dest!: random_choice_frame)
next
  case Change
  with assms show ?thesis
    by (auto split: sum.splits list.splits dest!: random_choice_frame)
next
  case Swap
  with assms show ?thesis
    by (auto simp: Let_def split: sum.splits list.splits if_splits dest!: random_sample_frame)
qed

lemma mutate_frame:
  assumes "mutate cfg solution st = Inr (m, st')"
  shows "preserves (next_ref st) st st' \<and> fresh_in st m st'"
proof -
  let ?n = "next_ref st"
  obtain mutated st1 where k: "clone_obj solution st = (mutated, st1)"
    by (cases "clone_obj solution st")
  obtain r st2 where rr: "random_random st1 = (r, st2)" by (cases "random_random st1")
  from clone_obj_frame [OF k] have m: "mutated = ?n" and n1: "next_ref st1 = Suc ?n" by simp_all
  from random_random_frame [OF rr] n1 have n2: "next_ref st2 = Suc ?n"
    and s2: "store st2 = store st1" by simp_all
  have p2: "preserves ?n st st2"
    using preserves_trans [OF preserves_clone [OF k order_refl] preserves_same_store [OF s2]] n1 n2
    by simp
  show ?thesis
  proof (cases "r < mutation_rate cfg")
    case False
    with assms k rr have e: "evaluate_obj cfg mutated st2 = Inr (m, st')"
      by (simp add: mutate_def)
    from evaluate_obj_frame [OF e] evaluate_obj_preserves [OF e, of ?n] m n2 p2
    show ?thesis by (auto simp: fresh_in_def intro: preserves_trans)
  next
    case True
    with assms k rr obtain mt st3 st4 m' st5 where
      ch: "random_choice [Add, Remove, Change, Swap] st2 = Inr (mt, st3)" and
      am: "apply_mutation (ga_problem cfg) mt mutated st3 = Inr st4" and
      ra: "reassign_devices cfg mutated st4 = Inr (m', st5)" and
      e: "evaluate_obj cfg m' st5 = Inr (m, st')"
      by (auto simp: mutate_def split: sum.splits)
    from random_choice_frame [OF ch] n2 have n3: "next_ref st3 = Suc ?n"
      and s3: "store st3 = store st2" by simp_all
    from apply_mutation_frame [OF am] n3 m have n4: "next_ref st4 = Suc ?n"
      and s4: "\<forall>r<?n. store st4 r = store st3 r" by simp_all
    from reassign_devices_frame [OF ra] have p5: "preserves (next_ref st4) st4 st5"
      and f5: "fresh_in st4 m' st5" by simp_all
    from evaluate_obj_frame [OF e] have eq: "m = m'" and n6: "next_ref st' = next_ref st5" by simp_all
    have "preserves ?n st2 st4" using s3 s4 n2 n4 by (simp add: preserves_def)
    moreover have "preserves ?n st4 st5" using p5 n4 by (auto intro: preserves_mono)
    moreover have "preserves ?n st5 st'"
      using evaluate_obj_preserves [OF e, of ?n] f5 n4 by (simp add: fresh_in_def)
    ultimately have "preserves ?n st st'" using p2 by (blast intro: preserves_trans)
    moreover have "fresh_in st m st'" using f5 eq n4 n6 by (simp add: fresh_in_def)
    ultimately show ?thesis by simp
  qed
qed

lemma sa_loop_frame:
  "sa_loop cfg T n current cf st = Inr (res, st') \<Longrightarrow>
     preserves (next_ref st) st st' \<and> (res = current \<or> fresh_in st res st')"
proof (induction n arbitrary: current cf st)
  case 0
  then show ?case by (simp add: preserves_refl)
next
  case (Suc n)
  from Suc.prems obtain nb st1 where mu: "mutate cfg current st = Inr (nb, st1)"
    by (auto split: sum.splits)
  from mutate_frame [OF mu] have p1: "preserves (next_ref st) st st1" and f1: "fresh_in st nb st1"
    by simp_all
  obtain r st2 where rr: "random_random st1 = (r, st2)" by (cases "random_random st1")
  from random_random_frame [OF rr] have s2: "store st2 = store st1" "next_ref st2 = next_ref st1"
    by simp_all
  have p2: "preserves (next_ref st) st st2"
    using preserves_trans [OF p1 preserves_same_store] s2 by simp
  from Suc.prems mu rr consider
    (a) cur' cf' where "sa_loop cfg T n cur' cf' st1 = Inr (res, st')" "cur' = nb" |
    (b) cur' cf' where "sa_loop cfg T n cur' cf' st2 = Inr (res, st')" "cur' = nb \<or> cur' = current"
    by (auto simp: Let_def split: if_splits)
  then show ?case
  proof cases
    case a
    from Suc.IH [OF a(1)] have q: "preserves (next_ref st1) st1 st'"
      and r: "res = cur' \<or> fresh_in st1 res st'" by simp_all
    have le: "next_ref st \<le> next_ref st1" using p1 by (rule preserves_next)
    have le': "next_ref st1 \<le> next_ref st'" using q by (rule preserves_next)
    have "preserves (next_ref st) st st'"
      using preserves_trans [OF p1 preserves_mono [OF q le]] .
    moreover have "fresh_in st res st'"
      using r a(2) f1 le le' by (auto simp: fresh_in_def)
    ultimately show ?thesis by simp
  next
    case b
    from Suc.IH [OF b(1)] have q: "preserves (next_ref st2) st2 st'"
      and r: "res = cur' \<or> fresh_in st2 res st'" by simp_all
    have le: "next_ref st \<le> next_ref st2" using p2 by (rule preserves_next)
    have le': "next_ref st2 \<le> next_ref st'" using q by (rule preserves_next)
    have "preserves (next_ref st) st st'"
      using preserves_trans [OF p2 preserves_mono [OF q le]] .
    moreover have "res = current \<or> fresh_in st res st'"
      using r b(2) f1 le le' s2 by (auto simp: fresh_in_def)
    ultimately show ?thesis by simp
  qed
qed

lemma simulated_annealing_improvement_frame:
  assumes "simulated_annealing_improvement cfg solution T st = Inr (res, st')"
  shows "preserves (next_ref st) st st'
       \<and> (if \<not> use_sa cfg \<or> T < 0.1 then res = solution \<and> st' = st else fresh_in st res st')"
proof (cases "\<not> use_sa cfg \<or> T < 0.1")
  case True
  with assms show ?thesis
    by (auto simp: simulated_annealing_improvement_def preserves_refl)
next
  case False
  obtain cur st1 where k: "clone_obj solution st = (cur, st1)" by (cases "clone_obj solution st")
  with False assms have l: "sa_loop cfg T 5 cur (fitness (store st1 cur)) st1 = Inr (res, st')"
    by (auto simp: simulated_annealing_improvement_def)
  from clone_obj_frame [OF k] have c: "cur = next_ref st" and n1: "next_ref st1 = Suc (next_ref st)"
    by simp_all
  from sa_loop_frame [OF l] have q: "preserves (next_ref st1) st1 st'"
    and r: "res = cur \<or> fresh_in st1 res st'" by simp_all
  have le': "next_ref st1 \<le> next_ref st'" using q by (rule preserves_next)
  have "preserves (next_ref st) st st'"
    using preserves_trans [OF preserves_clone [OF k order_refl] preserves_mono [OF q]] n1 by simp
  moreover have "fresh_in st res st'" using r c n1 le' by (auto simp: fresh_in_def)
  ultimately show ?thesis using False by simp
qed

section \<open>Evaluating the small scenario\<close>

lemma ex_sites_loop:
  "sites_loop ex_problem (placement_map ex_solution) (0, []) = Inr (100, [(0, zero_usage)])"
  by (simp add: ex_problem_def ex_solution_def ex_type_def py_index_def dict_set_def zero_usage_def)

lemma ex_devices_loop:
  assumes "placement_map s = placement_map ex_solution"
    and "assignment_map s = assignment_map ex_solution"
  shows "devices_loop ex_problem s (devices ex_problem) (True, [(0, zero_usage)], 0)
     = Inr (True, [(0, \<lparr>cpu = 3, memory = 6, storage = 15\<rparr>)], 20)"
  using assms
  by (simp add: ex_problem_def ex_solution_def ex_type_def ex_device_def py_index_def dict_set_def
      dict_get_def dict_item_def get_distance_def float_add_nat float_sum_def zero_usage_def)

lemma ex_usage_loop:
  "usage_loop ex_problem (placement_map ex_solution) [(0, \<lparr>cpu = 3, memory = 6, storage = 15\<rparr>)] True
     = Inr True"
  by (simp add: ex_problem_def ex_solution_def ex_type_def py_index_def dict_item_def)

lemma ex_bounds:
  "max_possible_cost ex_problem = 120" "max_possible_latency ex_problem = 3 * 1000 * sqrt 2"
  by (simp_all add: max_possible_cost_def max_possible_latency_def ex_problem_def ex_type_def)

lemma ex_entries: "entries_loop (placement_map ex_solution) (assignment_map ex_solution) True"
  by (simp add: ex_solution_def dict_get_def)

lemma ex_no_None: "None \<notin> set (map snd (assignment_map ex_solution))"
  by (simp add: ex_solution_def)

lemma ex_evaluate_any:
  assumes pm: "placement_map s = placement_map ex_solution"
    and am: "assignment_map s = assignment_map ex_solution"
  shows "evaluate ex_problem alpha s
     = Inr (s\<lparr>total_cost := 100, total_latency := 20, is_feasible := True,
              fitness := Fin (alpha * (100 / 120) + (1 - alpha) * (20 / (3 * 1000 * sqrt 2)))\<rparr>)"
  unfolding evaluate_def pm am ex_sites_loop
  by (simp only: ex_entries ex_devices_loop [OF pm am] ex_usage_loop ex_bounds ex_no_None
      sum.case prod.case Let_def if_True if_False)
    simp

lemma ex_evaluate: "evaluate ex_problem alpha ex_solution = Inr (ex_evaluated alpha)"
  by (simp add: ex_evaluate_any ex_evaluated_def)

lemma ex_evaluated_again:
  "evaluate ex_problem alpha (ex_evaluated beta) = Inr (ex_evaluated alpha)"
  by (simp add: ex_evaluate_any ex_evaluated_def)

lemma ex_stale_evaluate:
  "evaluate ex_problem a ex_stale
     = Inr (ex_stale\<lparr>total_cost := 100, total_latency := 20, is_feasible := False,
          fitness := PInf\<rparr>)"
  by (simp add: evaluate_def ex_stale_def ex_problem_def ex_solution_def ex_type_def
      ex_device_def py_index_def dict_set_def dict_get_def dict_item_def get_distance_def
      float_add_nat)

section \<open>Operators with a neutral rate, and on the small scenario\<close>

lemma evaluate_maps:
  "evaluate p a s = Inr s' \<Longrightarrow>
     placement_map s' = placement_map s \<and> assignment_map s' = assignment_map s"
  by (auto simp: evaluate_def Let_def split: sum.splits prod.splits if_splits)

lemma random_random_nonneg: "random_random st = (r, st') \<Longrightarrow> 0 \<le> r"
  by (auto simp: random_random_def draw_def Let_def split: prod.splits)

lemma crossover_rate_zero:
  assumes z: "crossover_rate cfg = 0"
    and e1: "evaluate (ga_problem cfg) (ga_alpha cfg) (store st parent1) = Inr s1"
    and e2: "evaluate (ga_problem cfg) (ga_alpha cfg) (store st parent2) = Inr s2"
    and a2: "parent2 < next_ref st"
  shows "\<exists>st'. crossover cfg parent1 parent2 st = Inr ((next_ref st, Suc (next_ref st)), st')
           \<and> store st' (next_ref st) = s1 \<and> store st' (Suc (next_ref st)) = s2"
proof -
  obtain r st3 where rr: "random_random (snd (clone_obj parent2 (snd (clone_obj parent1 st)))) = (r, st3)"
    by (cases "random_random (snd (clone_obj parent2 (snd (clone_obj parent1 st))))")
  from random_random_nonneg [OF rr] z have nr: "\<not> r < crossover_rate cfg" by simp
  have s3: "store st3 = (store st)(next_ref st := store st parent1, Suc (next_ref st) := store st parent2)"
    using random_random_frame [OF rr] a2
    by (simp add: clone_obj_def new_object_def clone_id)
  have "crossover cfg parent1 parent2 st = evaluate_pair cfg (next_ref st) (Suc (next_ref st)) st3"
    using rr nr by (simp add: crossover_def clone_obj_def new_object_def Let_def)
  moreover have "\<exists>st'. evaluate_pair cfg (next_ref st) (Suc (next_ref st)) st3
      = Inr ((next_ref st, Suc (next_ref st)), st')
      \<and> store st' (next_ref st) = s1 \<and> store st' (Suc (next_ref st)) = s2"
    using e1 e2 by (simp add: evaluate_pair_def modify_obj_def s3)
  ultimately show ?thesis by simp
qed

lemma mutation_rate_zero:
  assumes z: "mutation_rate cfg = 0"
    and e: "evaluate (ga_problem cfg) (ga_alpha cfg) (store st solution) = Inr s1"
  shows "\<exists>st'. mutate cfg solution st = Inr (next_ref st, st') \<and> store st' (next_ref st) = s1"
proof -
  obtain r st2 where rr: "random_random (snd (clone_obj solution st)) = (r, st2)"
    by (cases "random_random (snd (clone_obj solution st))")
  from random_random_nonneg [OF rr] z have nr: "\<not> r < mutation_rate cfg" by simp
  have s2: "store st2 = (store st)(next_ref st := store st solution)"
    using random_random_frame [OF rr]
    by (simp add: clone_obj_def new_object_def clone_id)
  have "mutate cfg solution st = evaluate_obj cfg (next_ref st) st2"
    using rr nr by (simp add: mutate_def clone_obj_def new_object_def Let_def)
  moreover have "\<exists>st'. evaluate_obj cfg (next_ref st) st2 = Inr (next_ref st, st')
      \<and> store st' (next_ref st) = s1"
    using e by (simp add: evaluate_obj_def modify_obj_def s2)
  ultimately show ?thesis by simp
qed

lemma ex_unassigned: "unassigned_devices (ex_evaluated a) (devices ex_problem) = Inr []"
  by (simp add: ex_evaluated_def ex_solution_def ex_problem_def ex_device_def dict_item_def)

lemma ex_repair_body:
  "repair_body ex_problem a (ex_evaluated b) = Inr (ex_evaluated a)"
  by (simp add: repair_body_def ex_unassigned ex_evaluated_again)

lemma ex_repair_solution:
  "\<exists>st'. repair_solution ex_cfg 0 ex_state = Inr (1, st')"
  by (simp add: repair_solution_def clone_obj_def new_object_def modify_obj_def ex_state_def
      ex_cfg_def clone_id ex_repair_body)

lemma ex_clear:
  "clear_assignments (ex_evaluated a)
     = (ex_evaluated a)\<lparr>assignment_map := [(0, None), (1, None), (2, None)]\<rparr>"
  by (simp add: clear_assignments_def ex_evaluated_def ex_solution_def dict_set_def)

lemma ex_reassign_body:
  "\<exists>s'. reassign_body ex_problem (ex_evaluated a) = Inr s'"
  unfolding reassign_body_def ex_clear
  by (simp add: ex_evaluated_def ex_solution_def ex_problem_def
      ex_device_def ex_type_def dict_item_def py_index_def get_distance_def float_add_nat float_sum_def has_room_def
      get_devices_assigned_to_def assign_device_def dict_contains_def dict_get_def dict_set_def)

lemma ex_reassign_devices:
  "\<exists>st'. reassign_devices ex_cfg 0 ex_state = Inr (1, st')"
proof -
  from ex_reassign_body [of "1/2"] obtain s' where
    "reassign_body ex_problem (ex_evaluated (1/2)) = Inr s'" by blast
  then show ?thesis
    by (simp add: reassign_devices_def clone_obj_def new_object_def modify_obj_def ex_state_def
      ex_cfg_def clone_id)
qed

section \<open>The annealing loop\<close>

lemma sa_loop_walk:
  "sa_loop cfg T n current (fitness (store st current)) st = Inr (res, st') \<Longrightarrow>
     current < next_ref st \<Longrightarrow> sa_walk cfg T n current st res st'"
proof (induction n arbitrary: current st)
  case 0
  then show ?case by (auto intro: sa_walk.finished)
next
  case (Suc n)
  from Suc.prems(1) obtain nb st1 where mu: "mutate cfg current st = Inr (nb, st1)"
    by (auto split: sum.splits)
  from mutate_frame [OF mu] have p1: "preserves (next_ref st) st st1" and f1: "fresh_in st nb st1"
    by simp_all
  from p1 Suc.prems(2) have cur1: "store st1 current = store st current"
    and a1: "current < next_ref st1"
    by (auto simp: preserves_def)
  from f1 have nb1: "nb < next_ref st1" by (simp add: fresh_in_def)
  let ?nf = "fitness (store st1 nb)" and ?cf = "fitness (store st current)"
  show ?case
  proof (cases "?nf < ?cf")
    case True
    with Suc.prems(1) mu have "sa_loop cfg T n nb ?nf st1 = Inr (res, st')" by simp
    from Suc.IH [OF this nb1] have "sa_walk cfg T n nb st1 res st'" .
    with mu True cur1 show ?thesis by (auto intro: sa_walk.improving)
  next
    case False
    obtain u st2 where rr: "random_random st1 = (u, st2)" by (cases "random_random st1")
    from random_random_frame [OF rr] have s2: "store st2 = store st1" "next_ref st2 = next_ref st1"
      by simp_all
    show ?thesis
    proof (cases "metropolis_accept ?nf ?cf T u")
      case True
      with False obtain nf cf where v: "?nf = Fin nf" "?cf = Fin cf" "u < exp (- (nf - cf) / T)"
        by (cases ?nf; cases ?cf) (auto simp: metropolis_accept_def)
      from Suc.prems(1) mu False rr True have "sa_loop cfg T n nb ?nf st2 = Inr (res, st')"
        by simp
      then have "sa_loop cfg T n nb (fitness (store st2 nb)) st2 = Inr (res, st')"
        by (simp add: s2)
      from Suc.IH [OF this] nb1 s2 have "sa_walk cfg T n nb st2 res st'" by simp
      with mu False rr v cur1 show ?thesis
        by (auto intro: sa_walk.accepted)
    next
      case no: False
      from Suc.prems(1) mu False rr no have "sa_loop cfg T n current ?cf st2 = Inr (res, st')"
        by simp
      then have "sa_loop cfg T n current (fitness (store st2 current)) st2 = Inr (res, st')"
        by (simp add: s2 cur1)
      from Suc.IH [OF this] a1 s2 have w: "sa_walk cfg T n current st2 res st'" by simp
      have "?nf = PInf \<or> (\<exists>nf cf. ?nf = Fin nf \<and> ?cf = Fin cf \<and> \<not> u < exp (- (nf - cf) / T))"
        using no False by (cases ?nf; cases ?cf) (auto simp: metropolis_accept_def)
      with mu False rr w cur1 show ?thesis
        by (auto intro: sa_walk.rejected)
    qed
  qed
qed

lemma mutate_add_place:
  assumes g: "rng st = (\<lambda>n. 0)" and m: "0 < mutation_rate cfg"
    and u: "unused_candidates (store st cur) (candidate_points (ga_problem cfg)) = Inr (c # cs)"
    and t: "cloudlet_types (ga_problem cfg) = ct # cts"
    and r: "reassign_body (ga_problem cfg) (place_cloudlet (store st cur) (cp_id c) (ct_id ct)) = Inr s1"
    and e: "evaluate (ga_problem cfg) (ga_alpha cfg) s1 = Inr s2"
  shows "mutate cfg cur st
     = Inr (Suc (next_ref st),
            st\<lparr>store := (store st)(next_ref st := place_cloudlet (store st cur) (cp_id c) (ct_id ct),
                                    Suc (next_ref st) := s2),
               next_ref := Suc (Suc (next_ref st)), rng := (\<lambda>n. 0)\<rparr>)"
  using m
  by (simp add: mutate_def clone_obj_def new_object_def clone_id random_random_def draw_def g
      random_choice_def u t r e reassign_devices_def modify_obj_def evaluate_obj_def)

lemma mutate_add_nothing:
  assumes g: "rng st = (\<lambda>n. 0)" and m: "0 < mutation_rate cfg"
    and u: "unused_candidates (store st cur) (candidate_points (ga_problem cfg)) = Inr []"
    and r: "reassign_body (ga_problem cfg) (store st cur) = Inr s1"
    and e: "evaluate (ga_problem cfg) (ga_alpha cfg) s1 = Inr s2"
  shows "mutate cfg cur st
     = Inr (Suc (next_ref st),
            st\<lparr>store := (store st)(next_ref st := store st cur, Suc (next_ref st) := s2),
               next_ref := Suc (Suc (next_ref st)), rng := (\<lambda>n. 0)\<rparr>)"
  using m
  by (simp add: mutate_def clone_obj_def new_object_def clone_id random_random_def draw_def g
      random_choice_def u r e reassign_devices_def modify_obj_def evaluate_obj_def)

lemma ex2_unused_one:
  "placement_map s = [(0, Some 0), (1, None)] \<Longrightarrow>
     unused_candidates s (candidate_points ex2_problem)
       = Inr [\<lparr>cp_id = 1, cp_x = 10, cp_y = 0, placement_cost_factor = 1\<rparr>]"
  by (simp add: ex2_problem_def dict_item_def)

lemma ex2_unused_none:
  "ex2_placed s \<Longrightarrow> unused_candidates s (candidate_points ex2_problem) = Inr []"
  by (simp add: ex2_problem_def dict_item_def ex2_placed_def)

lemma ex2_place:
  "placement_map s = [(0, Some 0), (1, None)] \<Longrightarrow> assignment_map s = [(0, Some 0)] \<Longrightarrow>
     ex2_placed (place_cloudlet s 1 0)"
  by (simp add: ex2_placed_def place_cloudlet_def dict_contains_def dict_set_def)

lemma ex2_reassign:
  "ex2_placed s \<Longrightarrow> reassign_body ex2_problem s = Inr (s\<lparr>assignment_map := [(0, Some 0)]\<rparr>)"
  by (simp add: ex2_placed_def reassign_body_def clear_assignments_def ex2_problem_def ex_device_def
      ex_type_def dict_item_def py_index_def get_distance_def float_add_nat float_sum_def has_room_def
      get_devices_assigned_to_def assign_device_def dict_contains_def dict_get_def dict_set_def)

lemma ex2_evaluate:
  assumes "ex2_placed s"
  shows "evaluate ex2_problem (1/2) s
     = Inr (s\<lparr>total_cost := 200, total_latency := 5, is_feasible := True,
              fitness := ex2_fitness 200\<rparr>)"
proof -
  from assms have pm: "placement_map s = [(0, Some 0), (1, Some 0)]"
    and am: "assignment_map s = [(0, Some 0)]" by (simp_all add: ex2_placed_def)
  have sl: "sites_loop ex2_problem [(0, Some 0), (1, Some 0)] (0, [])
      = Inr (200, [(0, zero_usage), (1, zero_usage)])"
    by (simp add: ex2_problem_def ex_type_def py_index_def dict_set_def zero_usage_def)
  have dl: "devices_loop ex2_problem s (devices ex2_problem)
      (True, [(0, zero_usage), (1, zero_usage)], 0)
      = Inr (True, [(0, \<lparr>cpu = 1, memory = 2, storage = 5\<rparr>), (1, zero_usage)], 5)"
    by (simp add: pm am ex2_problem_def ex_type_def ex_device_def py_index_def dict_set_def
      dict_get_def dict_item_def get_distance_def float_add_nat float_sum_def zero_usage_def)
  have ul: "usage_loop ex2_problem [(0, Some 0), (1, Some 0)]
      [(0, \<lparr>cpu = 1, memory = 2, storage = 5\<rparr>), (1, zero_usage)] True = Inr True"
    by (simp add: ex2_problem_def ex_type_def py_index_def dict_item_def zero_usage_def)
  have en: "entries_loop [(0, Some 0), (1, Some 0)] [(0, Some 0)] True"
    by (simp add: dict_get_def)
  have bd: "max_possible_cost ex2_problem = 120" "max_possible_latency ex2_problem = 1 * 1000 * sqrt 2"
    by (simp_all add: max_possible_cost_def max_possible_latency_def ex2_problem_def ex_type_def
        ex_device_def)
  show ?thesis
    unfolding evaluate_def pm am sl
    by (simp only: en dl ul bd sum.case prod.case Let_def if_True if_False ex2_fitness_def)
      simp
qed

lemma ex2_fitness_order: "ex2_fitness 100 < ex2_fitness 200" "\<not> ex2_fitness 200 < ex2_fitness 100"
  "\<not> ex2_fitness 200 < ex2_fitness 200"
  by (simp_all add: ex2_fitness_def)

lemma ex2_step_placed:
  assumes g: "rng st = (\<lambda>n. 0)" and b: "ex2_placed (store st cur)"
  shows "\<exists>st'. mutate ex2_cfg cur st = Inr (Suc (next_ref st), st') \<and> rng st' = (\<lambda>n. 0)
           \<and> ex2_placed (store st' (Suc (next_ref st)))
           \<and> fitness (store st' (Suc (next_ref st))) = ex2_fitness 200"
proof -
  let ?s1 = "(store st cur)\<lparr>assignment_map := [(0, Some 0)]\<rparr>"
  have b1: "ex2_placed ?s1" using b by (simp add: ex2_placed_def)
  have "mutate ex2_cfg cur st = Inr (Suc (next_ref st),
            st\<lparr>store := (store st)(next_ref st := store st cur,
                 Suc (next_ref st) := ?s1\<lparr>total_cost := 200, total_latency := 5,
                     is_feasible := True, fitness := ex2_fitness 200\<rparr>),
               next_ref := Suc (Suc (next_ref st)), rng := (\<lambda>n. 0)\<rparr>)"
  proof (rule mutate_add_nothing [OF g])
    show "0 < mutation_rate ex2_cfg" by (simp add: ex2_cfg_def)
    show "unused_candidates (store st cur) (candidate_points (ga_problem ex2_cfg)) = Inr []"
      by (simp add: ex2_cfg_def ex2_unused_none [OF b])
    show "reassign_body (ga_problem ex2_cfg) (store st cur) = Inr ?s1"
      using ex2_reassign [OF b] by (simp add: ex2_cfg_def)
    show "evaluate (ga_problem ex2_cfg) (ga_alpha ex2_cfg) ?s1
        = Inr (?s1\<lparr>total_cost := 200, total_latency := 5, is_feasible := True,
              fitness := ex2_fitness 200\<rparr>)"
      using ex2_evaluate [OF b1] by (simp add: ex2_cfg_def)
  qed
  then show ?thesis using b by (simp add: ex2_placed_def)
qed

lemma ex2_step_first:
  assumes g: "rng st = (\<lambda>n. 0)"
    and pm: "placement_map (store st cur) = [(0, Some 0), (1, None)]"
    and am: "assignment_map (store st cur) = [(0, Some 0)]"
  shows "\<exists>st'. mutate ex2_cfg cur st = Inr (Suc (next_ref st), st') \<and> rng st' = (\<lambda>n. 0)
           \<and> ex2_placed (store st' (Suc (next_ref st)))
           \<and> fitness (store st' (Suc (next_ref st))) = ex2_fitness 200"
proof -
  let ?s0 = "place_cloudlet (store st cur) 1 0"
  let ?s1 = "?s0\<lparr>assignment_map := [(0, Some 0)]\<rparr>"
  have b0: "ex2_placed ?s0" using ex2_place [OF pm am] .
  then have b1: "ex2_placed ?s1" by (simp add: ex2_placed_def)
  have "mutate ex2_cfg cur st = Inr (Suc (next_ref st),
            st\<lparr>store := (store st)(next_ref st :=
                   place_cloudlet (store st cur)
                     (cp_id \<lparr>cp_id = 1, cp_x = 10, cp_y = 0, placement_cost_factor = 1\<rparr>)
                     (ct_id ex_type),
                 Suc (next_ref st) := ?s1\<lparr>total_cost := 200, total_latency := 5,
                     is_feasible := True, fitness := ex2_fitness 200\<rparr>),
               next_ref := Suc (Suc (next_ref st)), rng := (\<lambda>n. 0)\<rparr>)"
  proof (rule mutate_add_place [OF g])
    show "0 < mutation_rate ex2_cfg" by (simp add: ex2_cfg_def)
    show "unused_candidates (store st cur) (candidate_points (ga_problem ex2_cfg))
        = Inr [\<lparr>cp_id = 1, cp_x = 10, cp_y = 0, placement_cost_factor = 1\<rparr>]"
      by (simp add: ex2_cfg_def ex2_unused_one [OF pm])
    show "cloudlet_types (ga_problem ex2_cfg) = [ex_type]"
      by (simp add: ex2_cfg_def ex2_problem_def)
    have i: "ct_id ex_type = 0" by (simp add: ex_type_def)
    show "reassign_body (ga_problem ex2_cfg)
        (place_cloudlet (store st cur)
           (cp_id \<lparr>cp_id = 1, cp_x = 10, cp_y = 0, placement_cost_factor = 1\<rparr>) (ct_id ex_type))
        = Inr ?s1"
      using ex2_reassign [OF b0] by (simp add: ex2_cfg_def i)
    show "evaluate (ga_problem ex2_cfg) (ga_alpha ex2_cfg) ?s1
        = Inr (?s1\<lparr>total_cost := 200, total_latency := 5, is_feasible := True,
              fitness := ex2_fitness 200\<rparr>)"
      using ex2_evaluate [OF b1] by (simp add: ex2_cfg_def)
  qed
  then show ?thesis using b1 by (simp add: ex2_placed_def)
qed

lemma ex2_accept: "metropolis_accept (ex2_fitness a) (ex2_fitness b) 1 0"
  by (simp add: metropolis_accept_def ex2_fitness_def)

lemma ex2_random: "rng st = (\<lambda>n. 0) \<Longrightarrow> random_random st = (0, st\<lparr>rng := (\<lambda>n. 0)\<rparr>)"
  by (simp add: random_random_def draw_def)

lemma ex2_sa_loop_placed:
  "rng st = (\<lambda>n. 0) \<Longrightarrow> ex2_placed (store st cur) \<Longrightarrow>
     fitness (store st cur) = ex2_fitness 200 \<Longrightarrow>
     \<exists>res st'. sa_loop ex2_cfg 1 n cur (ex2_fitness 200) st = Inr (res, st')
        \<and> fitness (store st' res) = ex2_fitness 200"
proof (induction n arbitrary: cur st)
  case 0
  then show ?case by simp
next
  case (Suc n)
  from ex2_step_placed [OF Suc.prems(1,2)] obtain st1 where
    mu: "mutate ex2_cfg cur st = Inr (Suc (next_ref st), st1)" and g1: "rng st1 = (\<lambda>n. 0)"
    and b1: "ex2_placed (store st1 (Suc (next_ref st)))"
    and f1: "fitness (store st1 (Suc (next_ref st))) = ex2_fitness 200" by blast
  let ?st2 = "st1\<lparr>rng := (\<lambda>n. 0)\<rparr>"
  have "rng ?st2 = (\<lambda>n. 0)" "ex2_placed (store ?st2 (Suc (next_ref st)))"
    "fitness (store ?st2 (Suc (next_ref st))) = ex2_fitness 200"
    using b1 f1 by simp_all
  from Suc.IH [OF this] obtain res st' where
    "sa_loop ex2_cfg 1 n (Suc (next_ref st)) (ex2_fitness 200) ?st2 = Inr (res, st')"
    "fitness (store st' res) = ex2_fitness 200" by blast
  then show ?case
    by (simp add: mu f1 ex2_fitness_order ex2_random [OF g1] ex2_accept)
qed

lemma ex2_annealing:
  "\<exists>improved st'. simulated_annealing_improvement ex2_cfg 0 1 ex2_state = Inr (improved, st')
      \<and> fitness (store st' improved) = ex2_fitness 200"
proof -
  let ?st1 = "ex2_state\<lparr>store := (store ex2_state)(1 := ex2_solution), next_ref := 2\<rparr>"
  have k: "clone_obj 0 ex2_state = (1, ?st1)"
    by (simp add: clone_obj_def new_object_def clone_id ex2_state_def)
  have g: "rng ?st1 = (\<lambda>n. 0)" by (simp add: ex2_state_def)
  have pm: "placement_map (store ?st1 1) = [(0, Some 0), (1, None)]"
    and am: "assignment_map (store ?st1 1) = [(0, Some 0)]"
    and f: "fitness (store ?st1 1) = ex2_fitness 100"
    by (simp_all add: ex2_solution_def)
  from ex2_step_first [OF g pm am] obtain st2 where
    mu: "mutate ex2_cfg 1 ?st1 = Inr (3, st2)" and g2: "rng st2 = (\<lambda>n. 0)"
    and b2: "ex2_placed (store st2 3)" and f2: "fitness (store st2 3) = ex2_fitness 200"
    by (auto simp: eval_nat_numeral)
  let ?st3 = "st2\<lparr>rng := (\<lambda>n. 0)\<rparr>"
  have "rng ?st3 = (\<lambda>n. 0)" "ex2_placed (store ?st3 3)" "fitness (store ?st3 3) = ex2_fitness 200"
    using b2 f2 by simp_all
  from ex2_sa_loop_placed [OF this, of 4] obtain res st' where
    l: "sa_loop ex2_cfg 1 4 3 (ex2_fitness 200) ?st3 = Inr (res, st')"
    and r: "fitness (store st' res) = ex2_fitness 200" by blast
  have five: "Suc 4 = (5::nat)" by simp
  have "sa_loop ex2_cfg 1 (Suc 4) 1 (ex2_fitness 100) ?st1
      = sa_loop ex2_cfg 1 4 3 (ex2_fitness 200) ?st3"
    by (simp only: sa_loop.simps mu sum.case prod.case f2 ex2_fitness_order if_False
        ex2_random [OF g2] Let_def ex2_accept if_True)
  with l have "sa_loop ex2_cfg 1 5 1 (ex2_fitness 100) ?st1 = Inr (res, st')"
    by (simp only: five)
  moreover have gate: "\<not> (\<not> use_sa ex2_cfg \<or> (1::real) < 0.1)"
    by (simp add: ex2_cfg_def)
  ultimately have "simulated_annealing_improvement ex2_cfg 0 1 ex2_state = Inr (res, st')"
    by (simp only: simulated_annealing_improvement_def k prod.case Let_def gate if_False f)
  with r show ?thesis by blast
qed

section \<open>A population smaller than a tournament\<close>

lemma ex3_evaluate:
  assumes "placement_map s = [(0, Some 0)]" and "assignment_map s = [(0, None)]"
  shows "evaluate ex3_problem a s
     = Inr (s\<lparr>total_cost := 100, total_latency := 0, is_feasible := False, fitness := PInf\<rparr>)"
  using assms
  by (simp add: evaluate_def ex3_problem_def ex_type_def ex_device_def py_index_def dict_set_def
      dict_get_def dict_item_def get_distance_def float_add_nat float_sum_def)

lemma ex3_repair_body:
  assumes "placement_map s = [(0, Some 0)]" and "assignment_map s = [(0, None)]"
  shows "repair_body ex3_problem a s
     = Inr (s\<lparr>total_cost := 100, total_latency := 0, is_feasible := False, fitness := PInf\<rparr>)"
proof -
  have u: "unassigned_devices s (devices ex3_problem) = Inr [ex_device 0 0]"
    using assms by (simp add: ex3_problem_def ex_device_def dict_item_def)
  have r: "repair_device ex3_problem (ex_device 0 0) s = Inr s"
    using assms
    by (simp add: repair_device_def ex3_problem_def ex_device_def ex_type_def dict_item_def
        py_index_def get_distance_def float_add_nat float_sum_def)
  show ?thesis
    by (simp add: repair_body_def u r ex3_evaluate [OF assms])
qed

lemma ex3_assign_nearest:
  assumes "placement_map s = [(0, Some 0)]"
  shows "assign_nearest ex3_problem [ex_device 0 0] s = Inr s"
  using assms
  by (simp add: ex3_problem_def ex_device_def ex_type_def dict_item_def py_index_def
      get_distance_def float_add_nat float_sum_def)

lemma ex3_init: "init_solution ex3_problem
   = \<lparr>placement_map = [(0, None)], assignment_map = [(0, None)],
      total_cost = 0, total_latency = 0, fitness = Fin 0, is_feasible = False\<rparr>"
  by (simp add: init_solution_def ex3_problem_def ex_device_def dict_set_def)

lemma draw_snd:
  "store (snd (draw st)) = store st" "next_ref (snd (draw st)) = next_ref st"
  by (simp_all add: draw_def)

lemma randint_one: "random_randint a a st = Inr (a, snd (draw st))"
  by (simp add: random_randint_def split_def)

lemma choice_one: "random_choice [x] st = Inr (x, snd (draw st))"
  by (simp add: random_choice_def split_def)

lemma sample_one: "random_sample [x] (Suc 0) st = Inr ([x], snd (draw st))"
  by (simp add: random_sample_def split_def)

lemma shuffle_one: "random_shuffle [x] st = ([x], snd (draw st))"
  by (simp add: random_shuffle_def split_def)

lemma ex3_create_random_solution:
  "\<exists>st'. create_random_solution ex3_cfg st = Inr (Suc (next_ref st), st')
      \<and> next_ref st' = Suc (Suc (next_ref st))
      \<and> \<not> is_feasible (store st' (Suc (next_ref st)))"
proof -
  let ?n = "next_ref st"
  let ?s0 = "init_solution ex3_problem"
  let ?s1 = "place_cloudlet ?s0 0 0"
  have pm: "placement_map ?s1 = [(0, Some 0)]" and am: "assignment_map ?s1 = [(0, None)]"
    by (simp_all add: ex3_init place_cloudlet_def dict_contains_def dict_set_def)
  let ?s2 = "?s1\<lparr>total_cost := 100, total_latency := 0, is_feasible := False, fitness := PInf\<rparr>"
  have pm2: "placement_map ?s2 = [(0, Some 0)]" and am2: "assignment_map ?s2 = [(0, None)]"
    using pm am by simp_all
  have p: "ga_problem ex3_cfg = ex3_problem" "ga_alpha ex3_cfg = 1/2" by (simp_all add: ex3_cfg_def)
  have l: "candidate_points ex3_problem = [\<lparr>cp_id = 0, cp_x = 100, cp_y = 0, placement_cost_factor = 1\<rparr>]"
    "cloudlet_types ex3_problem = [ex_type]" "devices ex3_problem = [ex_device 0 0]"
    by (simp_all add: ex3_problem_def)
  have i: "ct_id ex_type = 0" by (simp add: ex_type_def)
  show ?thesis
    by (simp add: create_random_solution_def p l new_object_def randint_one sample_one choice_one
        shuffle_one draw_snd i modify_obj_def
        ex3_assign_nearest [OF pm] ex3_evaluate [OF pm am] repair_solution_def clone_obj_def
        clone_id ex3_repair_body [OF pm2 am2] del: assign_nearest.simps)
qed

lemma generation_too_small:
  assumes "feasible_members st (population ga) = []"
    and "0 < population_size cfg" and "length (population ga) < 3"
  shows "generation cfg g ga st = Inl ValueError"
proof -
  have "fill_population cfg T (population ga) [] st = Inl ValueError" for T
    using assms(2,3)
    by (subst fill_population.simps)
      (simp add: breed_def tournament_selection_def random_sample_def)
  then show ?thesis
    by (simp add: generation_def assms(1) Let_def)
qed

section \<open>Repair and the capacity of occupied sites\<close>



lemma assign_device_cases:
  "assign_device s k c' = s
   \<or> (dict_get (placement_map s) c' \<noteq> None
       \<and> assign_device s k c' = s\<lparr>assignment_map := dict_set (assignment_map s) k (Some c')\<rparr>)"
  by (simp add: assign_device_def)

lemma assign_device_placement [simp]: "placement_map (assign_device s k c') = placement_map s"
  by (simp add: assign_device_def)




lemma place_cloudlet_assignment [simp]: "assignment_map (place_cloudlet s k t) = assignment_map s"
  by (simp add: place_cloudlet_def)









lemma min_by_mem: "min_by f b xs \<in> set (b # xs)"
  by (induction xs arbitrary: b) auto



























section \<open>The loop over the generations\<close>

lemma bind_pairE:
  assumes "(case x of Inl e \<Rightarrow> Inl e | Inr (a, b) \<Rightarrow> f a b) = Inr y"
  obtains a b where "x = Inr (a, b)" and "f a b = Inr y"
  using assms by (cases x) auto

lemma bind_tripleE:
  assumes "(case x of Inl e \<Rightarrow> Inl e | Inr ((a, b), c) \<Rightarrow> f a b c) = Inr y"
  obtains a b c where "x = Inr ((a, b), c)" and "f a b c = Inr y"
  using assms by (cases x) auto

lemma preserves_step:
  "preserves (next_ref a) a b \<Longrightarrow> preserves (next_ref b) b c \<Longrightarrow> preserves (next_ref a) a c"
  by (auto simp: preserves_def)

lemma py_min_mem: "py_min f xs = Inr r \<Longrightarrow> r \<in> set xs"
  using min_by_mem [of f] by (auto simp: py_min_def split: list.splits)

lemma tournament_selection_frame:
  assumes "tournament_selection pop k st = Inr (r, st')"
  shows "store st' = store st \<and> next_ref st' = next_ref st \<and> r \<in> set pop"
proof -
  from assms obtain t where s: "random_sample pop k st = Inr (t, st')"
    and m: "py_min (\<lambda>r. fitness (store st' r)) t = Inr r"
    by (auto simp: tournament_selection_def split: sum.splits)
  from m have "r \<in> set t" by (rule py_min_mem)
  with random_sample_frame [OF s] random_sample_subset [OF s] show ?thesis by auto
qed

lemma polish_frame:
  assumes "polish cfg T c st = Inr (r, st')"
  shows "preserves (next_ref st) st st' \<and> (c < next_ref st \<longrightarrow> r < next_ref st')"
proof (cases "use_sa cfg")
  case False
  with assms show ?thesis by (simp add: polish_def preserves_refl)
next
  case True
  with assms have "simulated_annealing_improvement cfg c T st = Inr (r, st')"
    by (simp add: polish_def)
  from simulated_annealing_improvement_frame [OF this] show ?thesis
    by (auto simp: fresh_in_def split: if_splits)
qed

lemma repair_if_infeasible_frame:
  assumes "repair_if_infeasible cfg c st = Inr (r, st')"
  shows "preserves (next_ref st) st st' \<and> (c < next_ref st \<longrightarrow> r < next_ref st')"
proof (cases "is_feasible (store st c)")
  case True
  with assms show ?thesis by (simp add: repair_if_infeasible_def preserves_refl)
next
  case False
  with assms have "repair_solution cfg c st = Inr (r, st')"
    by (simp add: repair_if_infeasible_def)
  from repair_solution_frame [OF this] show ?thesis by (simp add: fresh_in_def)
qed

lemma breed_frame:
  assumes "breed cfg T pop st = Inr ((c1, c2), st')"
  shows "preserves (next_ref st) st st' \<and> c1 < next_ref st' \<and> c2 < next_ref st'"
proof -
  from assms obtain p1 st1 p2 st2 x1 x2 st3 m1 st4 m2 st5 a1 st6 a2 st7 st8 where
    t1: "tournament_selection pop 3 st = Inr (p1, st1)"
    and t2: "tournament_selection pop 3 st1 = Inr (p2, st2)"
    and c: "crossover cfg p1 p2 st2 = Inr ((x1, x2), st3)"
    and m1: "mutate cfg x1 st3 = Inr (m1, st4)"
    and m2: "mutate cfg x2 st4 = Inr (m2, st5)"
    and a1: "polish cfg T m1 st5 = Inr (a1, st6)"
    and a2: "polish cfg T m2 st6 = Inr (a2, st7)"
    and r1: "repair_if_infeasible cfg a1 st7 = Inr (c1, st8)"
    and r2: "repair_if_infeasible cfg a2 st8 = Inr (c2, st')"
    unfolding breed_def
    apply (erule_tac bind_pairE)
    apply (erule_tac bind_pairE)
    apply (erule_tac bind_tripleE)
    apply (erule_tac bind_pairE)+
    apply simp
    done
  note f1 = tournament_selection_frame [OF t1]
  note f2 = tournament_selection_frame [OF t2]
  note fc = crossover_frame [OF c]
  note fm1 = mutate_frame [OF m1]
  note fm2 = mutate_frame [OF m2]
  note fa1 = polish_frame [OF a1]
  note fa2 = polish_frame [OF a2]
  note fr1 = repair_if_infeasible_frame [OF r1]
  note fr2 = repair_if_infeasible_frame [OF r2]
  have p2: "preserves (next_ref st) st st2"
    using f1 f2 by (intro preserves_same_store) simp_all
  have p3: "preserves (next_ref st) st st3" using p2 fc by (blast intro: preserves_step)
  have p4: "preserves (next_ref st) st st4" using p3 fm1 by (blast intro: preserves_step)
  have p5: "preserves (next_ref st) st st5" using p4 fm2 by (blast intro: preserves_step)
  have p6: "preserves (next_ref st) st st6" using p5 fa1 by (blast intro: preserves_step)
  have p7: "preserves (next_ref st) st st7" using p6 fa2 by (blast intro: preserves_step)
  have p8: "preserves (next_ref st) st st8" using p7 fr1 by (blast intro: preserves_step)
  have p: "preserves (next_ref st) st st'" using p8 fr2 by (blast intro: preserves_step)
  have "m1 < next_ref st4" using fm1 by (simp add: fresh_in_def)
  also have "\<dots> \<le> next_ref st5" using fm2 by (simp add: preserves_def)
  finally have "a1 < next_ref st6" using fa1 by simp
  also have "\<dots> \<le> next_ref st7" using fa2 by (simp add: preserves_def)
  finally have "c1 < next_ref st8" using fr1 by simp
  also have "\<dots> \<le> next_ref st'" using fr2 by (simp add: preserves_def)
  finally have c1: "c1 < next_ref st'" .
  have "m2 < next_ref st5" using fm2 by (simp add: fresh_in_def)
  also have "\<dots> \<le> next_ref st6" using fa1 by (simp add: preserves_def)
  finally have "a2 < next_ref st7" using fa2 by simp
  also have "\<dots> \<le> next_ref st8" using fr1 by (simp add: preserves_def)
  finally have c2: "c2 < next_ref st'" using fr2 by simp
  from p c1 c2 show ?thesis by simp
qed

lemma fill_population_frame:
  assumes "fill_population cfg T pop new st = Inr (np, st')"
  shows "preserves (next_ref st) st st' \<and> (\<exists>ext. np = new @ ext)
       \<and> ((\<forall>r \<in> set new. r < next_ref st) \<longrightarrow> (\<forall>r \<in> set np. r < next_ref st'))
       \<and> (\<not> int (length new) < population_size cfg \<longrightarrow> np = new \<and> st' = st)"
  using assms
proof (induction cfg T pop new st rule: fill_population.induct)
  case (1 cfg T pop new st)
  show ?case
  proof (cases "int (length new) < population_size cfg")
    case False
    with "1.prems" have "np = new" "st' = st" by (simp_all add: fill_population.simps)
    then show ?thesis by (simp add: preserves_refl)
  next
    case True
    with "1.prems" obtain c1 c2 st1 where
      b: "breed cfg T pop st = Inr ((c1, c2), st1)"
      and f: "fill_population cfg T pop (new @ [c1, c2]) st1 = Inr (np, st')"
      by (subst (asm) fill_population.simps) (auto split: sum.splits)
    note fb = breed_frame [OF b]
    note ih = "1.IH" [OF True b refl refl f]
    from fb ih have "preserves (next_ref st) st st'"
      by (blast intro: preserves_step)
    moreover from ih have "\<exists>ext. np = new @ ext" by auto
    moreover have "\<forall>r \<in> set np. r < next_ref st'" if v: "\<forall>r \<in> set new. r < next_ref st"
    proof -
      from fb have "next_ref st \<le> next_ref st1" by (simp add: preserves_def)
      with v fb have "\<forall>r \<in> set (new @ [c1, c2]). r < next_ref st1" by auto
      with ih show ?thesis by blast
    qed
    ultimately show ?thesis using True by simp
  qed
qed


lemma min_by_le: "f (min_by f b xs) \<le> f b \<and> (\<forall>x \<in> set xs. f (min_by f b xs) \<le> f x)"
proof (induction xs arbitrary: b)
  case Nil
  show ?case by simp
next
  case (Cons x xs)
  let ?b = "if f x < f b then x else b"
  from Cons [of ?b] have "f (min_by f ?b xs) \<le> f ?b"
    and "\<forall>y \<in> set xs. f (min_by f ?b xs) \<le> f y" by simp_all
  moreover have "f ?b \<le> f b" "f ?b \<le> f x" by auto
  ultimately show ?case by (auto intro: order_trans)
qed

lemma min_by_cong:
  "(\<And>x. x \<in> set (b # xs) \<Longrightarrow> f x = g x) \<Longrightarrow> min_by f b xs = min_by g b xs"
  by (induction xs arbitrary: b) auto

lemma feasible_members_cong:
  "(\<And>r. r \<in> set pop \<Longrightarrow> store st' r = store st r) \<Longrightarrow>
     feasible_members st' pop = feasible_members st pop"
  unfolding feasible_members_def by (intro filter_cong) auto

lemma feasible_members_subset: "set (feasible_members st pop) \<subseteq> set pop"
  by (auto simp: feasible_members_def)

lemma update_best_solution_cases:
  assumes "update_best_solution ga st = (ga', st')"
  shows "(ga' = ga \<and> st' = st
          \<and> (feasible_members st (population ga) = []
             \<or> (\<exists>r rs b. feasible_members st (population ga) = r # rs \<and> best_solution ga = Some b
                   \<and> \<not> fitness (store st (min_by (\<lambda>r. fitness (store st r)) r rs))
                         < fitness (store st b))))
       \<or> (\<exists>r rs. feasible_members st (population ga) = r # rs
             \<and> (case best_solution ga of
                    None \<Rightarrow> True
                  | Some b \<Rightarrow> fitness (store st (min_by (\<lambda>r. fitness (store st r)) r rs))
                               < fitness (store st b))
             \<and> ga' = ga\<lparr>best_solution := Some (next_ref st)\<rparr>
             \<and> next_ref st' = Suc (next_ref st)
             \<and> store st' = (store st)(next_ref st :=
                   store st (min_by (\<lambda>r. fitness (store st r)) r rs)))"
proof (cases "feasible_members st (population ga)")
  case Nil
  with assms show ?thesis by (simp add: update_best_solution_def)
next
  case (Cons r rs)
  let ?m = "min_by (\<lambda>r. fitness (store st r)) r rs"
  show ?thesis
  proof (cases "case best_solution ga of None \<Rightarrow> True
                | Some b \<Rightarrow> fitness (store st ?m) < fitness (store st b)")
    case True
    obtain copy st1 where c: "clone_obj ?m st = (copy, st1)" by (cases "clone_obj ?m st")
    with assms Cons True have "ga' = ga\<lparr>best_solution := Some copy\<rparr>" "st' = st1"
      by (simp_all add: update_best_solution_def Let_def)
    with clone_obj_frame [OF c] Cons True show ?thesis by simp
  next
    case False
    with assms Cons have "ga' = ga" "st' = st"
      by (simp_all add: update_best_solution_def Let_def)
    with False Cons show ?thesis by (auto split: option.splits)
  qed
qed

lemma record_history_fields:
  "best_solution (record_history ga st) = best_solution ga"
  "population (record_history ga st) = population ga"
  by (simp_all add: record_history_def Let_def split: list.splits option.splits)

lemma generationE:
  assumes "generation cfg g ga st = Inr (ga', st')"
  obtains np st1 ga2 where
    "fill_population cfg (float_sub 1 (float_div (real_of_int g) (real_of_int (generations cfg)))) (population ga)
       (take (nat (max 2 (population_size cfg div 10)))
          (sort_key (\<lambda>r. fitness (store st r)) (feasible_members st (population ga)))) st
       = Inr (np, st1)"
    and "update_best_solution (ga\<lparr>population := slice_to np (population_size cfg)\<rparr>) st1 = (ga2, st')"
    and "ga' = record_history ga2 st'"
  using assms unfolding generation_def Let_def
  by (auto split: sum.splits prod.splits)

lemma update_best_solution_incumbent:
  assumes u: "update_best_solution ga st = (ga', st')"
    and b: "best_solution ga = Some b" "b < next_ref st"
  shows "\<exists>b'. best_solution ga' = Some b' \<and> b' < next_ref st'
          \<and> fitness (store st' b') \<le> fitness (store st b)"
proof -
  from update_best_solution_cases [OF u] consider
    (same) "ga' = ga" "st' = st"
    | (new) r rs where
      "case best_solution ga of None \<Rightarrow> True
        | Some b \<Rightarrow> fitness (store st (min_by (\<lambda>r. fitness (store st r)) r rs))
                     < fitness (store st b)"
      "ga' = ga\<lparr>best_solution := Some (next_ref st)\<rparr>"
      "next_ref st' = Suc (next_ref st)"
      "store st' = (store st)(next_ref st :=
          store st (min_by (\<lambda>r. fitness (store st r)) r rs))"
    by blast
  then show ?thesis
  proof cases
    case same
    with b show ?thesis by simp
  next
    case (new r rs)
    from new(1) b have "fitness (store st (min_by (\<lambda>r. fitness (store st r)) r rs))
        < fitness (store st b)" by simp
    with new(2,3,4) show ?thesis by simp
  qed
qed

lemma generation_frame:
  assumes "generation cfg g ga st = Inr (ga', st')"
  shows "preserves (next_ref st) st st'"
proof -
  from assms obtain np st1 ga2 where
    f: "fill_population cfg (float_sub 1 (float_div (real_of_int g) (real_of_int (generations cfg)))) (population ga)
       (take (nat (max 2 (population_size cfg div 10)))
          (sort_key (\<lambda>r. fitness (store st r)) (feasible_members st (population ga)))) st
       = Inr (np, st1)"
    and u: "update_best_solution (ga\<lparr>population := slice_to np (population_size cfg)\<rparr>) st1 = (ga2, st')"
    by (rule generationE)
  from fill_population_frame [OF f] have p: "preserves (next_ref st) st st1" by simp
  from update_best_solution_cases [OF u] have "preserves (next_ref st1) st1 st'"
    by (auto simp: preserves_def)
  with p show ?thesis by (rule preserves_step)
qed

lemma generation_incumbent:
  assumes gen: "generation cfg g ga st = Inr (ga', st')"
    and b: "best_solution ga = Some b" "b < next_ref st"
  shows "\<exists>b'. best_solution ga' = Some b' \<and> b' < next_ref st'
          \<and> fitness (store st' b') \<le> fitness (store st b)"
proof -
  from gen obtain np st1 ga2 where
    f: "fill_population cfg (float_sub 1 (float_div (real_of_int g) (real_of_int (generations cfg)))) (population ga)
       (take (nat (max 2 (population_size cfg div 10)))
          (sort_key (\<lambda>r. fitness (store st r)) (feasible_members st (population ga)))) st
       = Inr (np, st1)"
    and u: "update_best_solution (ga\<lparr>population := slice_to np (population_size cfg)\<rparr>) st1 = (ga2, st')"
    and r: "ga' = record_history ga2 st'"
    by (rule generationE)
  from fill_population_frame [OF f] have p: "preserves (next_ref st) st st1" by simp
  with b have b1: "b < next_ref st1" "store st1 b = store st b" by (auto simp: preserves_def)
  from b have "best_solution (ga\<lparr>population := slice_to np (population_size cfg)\<rparr>) = Some b"
    by simp
  from update_best_solution_incumbent [OF u this b1(1)] b1(2) r show ?thesis
    by (simp add: record_history_fields)
qed

lemma run_generations_incumbent:
  assumes "run_generations cfg gs ga st = Inr (ga', st')"
    and "best_solution ga = Some b" and "b < next_ref st"
  shows "\<exists>b'. best_solution ga' = Some b' \<and> b' < next_ref st'
          \<and> fitness (store st' b') \<le> fitness (store st b)"
  using assms
proof (induction gs arbitrary: ga st b)
  case Nil
  then show ?case by simp
next
  case (Cons g gs)
  from Cons.prems(1) obtain ga1 st1 where
    g: "generation cfg g ga st = Inr (ga1, st1)"
    and r: "run_generations cfg gs ga1 st1 = Inr (ga', st')"
    by (auto split: sum.splits)
  from generation_incumbent [OF g Cons.prems(2,3)] obtain b1 where
    b1: "best_solution ga1 = Some b1" "b1 < next_ref st1"
      "fitness (store st1 b1) \<le> fitness (store st b)" by blast
  from Cons.IH [OF r b1(1,2)] obtain b' where
    "best_solution ga' = Some b'" "b' < next_ref st'"
    "fitness (store st' b') \<le> fitness (store st1 b1)" by blast
  with b1(3) show ?case by (auto intro: order_trans)
qed

lemma ex_update_first:
  "update_best_solution (new_ga\<lparr>population := [0]\<rparr>) ex_state
     = (new_ga\<lparr>population := [0], best_solution := Some 1\<rparr>,
        ex_state\<lparr>next_ref := 2, store := (store ex_state)(1 := ex_evaluated (1/2))\<rparr>)"
  by (simp add: update_best_solution_def feasible_members_def new_ga_def ex_state_def
      ex_evaluated_def clone_obj_def new_object_def clone_id)

lemma ex_generation:
  "\<exists>ga'. generation ex_cfg 0 ex_ga ex_state2 = Inr (ga', ex_state2) \<and> best_solution ga' = Some 1"
proof -
  have f: "feasible_members ex_state2 [0] = [0]"
    by (simp add: feasible_members_def ex_state2_def ex_state_def ex_evaluated_def)
  have fill: "fill_population ex_cfg T [0] [0] ex_state2 = Inr ([0], ex_state2)" for T
    by (subst fill_population.simps) (simp add: ex_cfg_def)
  have p: "population ex_ga = [0]" "population_size ex_cfg = 1"
    by (simp_all add: ex_ga_def ex_cfg_def)
  have s: "store ex_state2 r = ex_evaluated (1/2)" for r
    by (simp add: ex_state2_def ex_state_def)
  have u: "update_best_solution ex_ga ex_state2 = (ex_ga, ex_state2)"
    unfolding update_best_solution_def p f by (simp add: s ex_ga_def)
  have g: "ex_ga\<lparr>population := [0]\<rparr> = ex_ga" by (simp add: ex_ga_def)
  have "generation ex_cfg 0 ex_ga ex_state2 = Inr (record_history ex_ga ex_state2, ex_state2)"
    by (simp add: generation_def p f fill slice_to_def g u)
  moreover have "best_solution (record_history ex_ga ex_state2) = Some 1"
    by (simp add: record_history_fields ex_ga_def)
  ultimately show ?thesis by blast
qed

section \<open>The three series\<close>

lemma min_by_Cons:
  "min_by f a (y # ys) = (if f a \<le> f (min_by f y ys) then a else min_by f y ys)"
proof (induction ys arbitrary: a y)
  case Nil
  show ?case by auto
next
  case (Cons z zs)
  have "min_by f a (y # z # zs) = min_by f (if f y < f a then y else a) (z # zs)" by simp
  also have "\<dots> = (if f (if f y < f a then y else a) \<le> f (min_by f z zs)
                   then (if f y < f a then y else a) else min_by f z zs)"
    by (rule Cons)
  finally show ?case using Cons [of y z] by (auto simp del: min_by.simps)
qed

lemma min_by_first: "(\<forall>x \<in> set xs. \<not> f x < f a) \<Longrightarrow> min_by f a xs = a"
  by (induction xs) auto

lemma Min_min_by: "Min (set (map f (r # rs))) = f (min_by f r rs)"
proof (rule Min_eqI)
  show "finite (set (map f (r # rs)))" by simp
  show "\<And>y. y \<in> set (map f (r # rs)) \<Longrightarrow> f (min_by f r rs) \<le> y"
    using min_by_le [of f r rs] by auto
  show "f (min_by f r rs) \<in> set (map f (r # rs))"
    using min_by_mem [of f r rs] by auto
qed

lemma hd_insort_key:
  "hd (insort_key f x ys) = (if ys = [] then x else if f x \<le> f (hd ys) then x else hd ys)"
  by (cases ys) auto

lemma sort_key_Nil_iff: "(sort_key f xs = []) = (xs = [])"
  by (cases xs) (auto simp: insort_is_Cons dest: arg_cong [where f = length])

lemma hd_sort_key: "hd (sort_key f (r # rs)) = min_by f r rs"
proof (induction rs arbitrary: r)
  case Nil
  show ?case by simp
next
  case (Cons y ys)
  have "sort_key f (r # y # ys) = insort_key f r (sort_key f (y # ys))" by simp
  then have "hd (sort_key f (r # y # ys))
      = (if f r \<le> f (hd (sort_key f (y # ys))) then r else hd (sort_key f (y # ys)))"
    by (simp only: hd_insort_key sort_key_Nil_iff) simp
  with Cons [of y] show ?case by (simp only: min_by_Cons)
qed

lemma sort_key_Cons_min_by: "\<exists>tail. sort_key f (r # rs) = min_by f r rs # tail"
proof -
  have "sort_key f (r # rs) \<noteq> []" by (simp only: sort_key_Nil_iff) simp
  then have "sort_key f (r # rs) = hd (sort_key f (r # rs)) # tl (sort_key f (r # rs))" by simp
  then show ?thesis by (metis hd_sort_key)
qed


lemma place_selected_next:
  "place_selected p cs r st = Inr st' \<Longrightarrow> next_ref st' = next_ref st"
proof (induction cs arbitrary: st)
  case Nil
  then show ?case by simp
next
  case (Cons c cs)
  from Cons.prems obtain ct st1 where
    c: "random_choice (cloudlet_types p) st = Inr (ct, st1)"
    and r: "place_selected p cs r
        (st1\<lparr>store := (store st1)(r := place_cloudlet (store st1 r) (cp_id c) (ct_id ct))\<rparr>) = Inr st'"
    by (auto split: sum.splits)
  from Cons.IH [OF r] random_choice_frame [OF c] show ?case by simp
qed

lemma create_random_solution_next:
  assumes "create_random_solution cfg st = Inr (r, st')"
  shows "next_ref st < next_ref st' \<and> r < next_ref st'"
proof -
  let ?p = "ga_problem cfg"
  obtain sol st1 where n: "new_object (init_solution ?p) st = (sol, st1)"
    by (cases "new_object (init_solution ?p) st")
  from new_object_frame [OF n] have n1: "sol = next_ref st" "next_ref st1 = Suc (next_ref st)"
    by simp_all
  from assms n obtain k st2 where
    a: "random_randint 1 (min (int (length (candidate_points ?p)))
           (int (length (cloudlet_types ?p)) * 2)) st1 = Inr (k, st2)"
    and r2: "(case random_sample (candidate_points ?p) (nat k) st2 of
        Inl e \<Rightarrow> Inl e
      | Inr (selected_candidates, st3) \<Rightarrow>
          (case place_selected ?p selected_candidates sol st3 of
             Inl e \<Rightarrow> Inl e
           | Inr st4 \<Rightarrow>
               (let (shuffled_devices, st5) = random_shuffle (devices ?p) st4
                in case modify_obj sol
                          (\<lambda>s. case assign_nearest ?p shuffled_devices s of
                                  Inl e \<Rightarrow> Inl e
                                | Inr s' \<Rightarrow> evaluate ?p (ga_alpha cfg) s') st5 of
                     Inl e \<Rightarrow> Inl e
                   | Inr st6 \<Rightarrow>
                       if \<not> is_feasible (store st6 sol)
                       then repair_solution cfg sol st6
                       else Inr (sol, st6)))) = Inr (r, st')"
    unfolding create_random_solution_def Let_def by (auto split: sum.splits)
  from r2 obtain sel st3 where
    b: "random_sample (candidate_points ?p) (nat k) st2 = Inr (sel, st3)"
    and r3: "(case place_selected ?p sel sol st3 of
             Inl e \<Rightarrow> Inl e
           | Inr st4 \<Rightarrow>
               (let (shuffled_devices, st5) = random_shuffle (devices ?p) st4
                in case modify_obj sol
                          (\<lambda>s. case assign_nearest ?p shuffled_devices s of
                                  Inl e \<Rightarrow> Inl e
                                | Inr s' \<Rightarrow> evaluate ?p (ga_alpha cfg) s') st5 of
                     Inl e \<Rightarrow> Inl e
                   | Inr st6 \<Rightarrow>
                       if \<not> is_feasible (store st6 sol)
                       then repair_solution cfg sol st6
                       else Inr (sol, st6))) = Inr (r, st')"
    by (rule bind_pairE)
  from r3 obtain st4 where
    c: "place_selected ?p sel sol st3 = Inr st4"
    and r4: "(let (shuffled_devices, st5) = random_shuffle (devices ?p) st4
                in case modify_obj sol
                          (\<lambda>s. case assign_nearest ?p shuffled_devices s of
                                  Inl e \<Rightarrow> Inl e
                                | Inr s' \<Rightarrow> evaluate ?p (ga_alpha cfg) s') st5 of
                     Inl e \<Rightarrow> Inl e
                   | Inr st6 \<Rightarrow>
                       if \<not> is_feasible (store st6 sol)
                       then repair_solution cfg sol st6
                       else Inr (sol, st6)) = Inr (r, st')"
    by (cases "place_selected ?p sel sol st3") auto
  obtain sh st5 where d: "random_shuffle (devices ?p) st4 = (sh, st5)"
    by (cases "random_shuffle (devices ?p) st4")
  from r4 d obtain st6 where
    e: "modify_obj sol (\<lambda>s. case assign_nearest ?p sh s of
                                  Inl e \<Rightarrow> Inl e
                                | Inr s' \<Rightarrow> evaluate ?p (ga_alpha cfg) s') st5 = Inr st6"
    and r6: "(if \<not> is_feasible (store st6 sol) then repair_solution cfg sol st6
              else Inr (sol, st6)) = Inr (r, st')"
    by (auto split: sum.splits)
  have n6: "next_ref st6 = Suc (next_ref st)"
    using n1 random_randint_frame [OF a] random_sample_frame [OF b] place_selected_next [OF c]
      random_shuffle_frame [OF d] modify_obj_frame [OF e] by simp
  show ?thesis
  proof (cases "is_feasible (store st6 sol)")
    case True
    with r6 have "r = sol" "st' = st6" by simp_all
    with n6 n1 show ?thesis by simp
  next
    case False
    with r6 have "repair_solution cfg sol st6 = Inr (r, st')" by simp
    from repair_solution_frame [OF this] n6 show ?thesis
      by (simp add: preserves_def fresh_in_def)
  qed
qed

lemma create_population_valid:
  "create_population cfg n st = Inr (pop, st') \<Longrightarrow>
     next_ref st \<le> next_ref st' \<and> length pop = n \<and> (\<forall>r \<in> set pop. r < next_ref st')"
proof (induction n arbitrary: st pop)
  case 0
  then show ?case by simp
next
  case (Suc n)
  from Suc.prems obtain r st1 rs where
    c: "create_random_solution cfg st = Inr (r, st1)"
    and p: "create_population cfg n st1 = Inr (rs, st')"
    and pop: "pop = r # rs"
    by (auto split: sum.splits)
  from create_random_solution_next [OF c] Suc.IH [OF p] pop show ?case by auto
qed

lemma update_best_solution_tracks:
  assumes u: "update_best_solution ga st = (ga', st')"
    and valid: "\<forall>r \<in> set (population ga). r < next_ref st"
    and head: "incumbent_at_head ga st"
  shows "incumbent_is_best ga' st' \<and> population ga' = population ga
       \<and> next_ref st \<le> next_ref st'"
proof -
  let ?f = "\<lambda>r. fitness (store st r)"
  let ?F = "feasible_members st (population ga)"
  from update_best_solution_cases [OF u] consider
    (none) "ga' = ga" "st' = st" "?F = []"
    | (keep) r rs b where "ga' = ga" "st' = st" "?F = r # rs" "best_solution ga = Some b"
        "\<not> fitness (store st (min_by ?f r rs)) < fitness (store st b)"
    | (new) r rs where "?F = r # rs"
        "ga' = ga\<lparr>best_solution := Some (next_ref st)\<rparr>"
        "next_ref st' = Suc (next_ref st)"
        "store st' = (store st)(next_ref st := store st (min_by ?f r rs))"
    by blast
  then show ?thesis
  proof cases
    case none
    with head show ?thesis by (auto simp: incumbent_is_best_def incumbent_at_head_def)
  next
    case (keep r rs b)
    from head keep(3,4) have b: "b < next_ref st" "store st b = store st r"
      by (auto simp: incumbent_at_head_def)
    let ?m = "min_by ?f r rs"
    from keep(5) b have "\<not> ?f ?m < ?f r" by simp
    moreover have "?f ?m \<le> ?f r" "\<forall>x \<in> set rs. ?f ?m \<le> ?f x"
      using min_by_le [of ?f r rs] by simp_all
    ultimately have "\<forall>x \<in> set rs. \<not> ?f x < ?f r" by auto
    then have "?m = r" by (rule min_by_first)
    with keep b show ?thesis by (simp add: incumbent_is_best_def)
  next
    case (new r rs)
    let ?m = "min_by ?f r rs"
    have sub: "set (r # rs) \<subseteq> set (population ga)"
      using feasible_members_subset [of st "population ga"] new(1) by simp
    have same: "store st' x = store st x" if "x \<in> set (population ga)" for x
      using that valid new(4) by auto
    have F': "feasible_members st' (population ga) = r # rs"
      using feasible_members_cong [of "population ga" st' st] same new(1) by simp
    have "min_by (\<lambda>r. fitness (store st' r)) r rs = ?m"
      using sub same by (intro min_by_cong) auto
    moreover have "?m \<in> set (population ga)" using min_by_mem [of ?f r rs] sub by auto
    then have "store st' ?m = store st ?m" by (rule same)
    ultimately show ?thesis
      using new F' by (simp add: incumbent_is_best_def)
  qed
qed


lemma update_best_solution_histories:
  assumes "update_best_solution ga st = (ga', st')"
  shows "fitness_history ga' = fitness_history ga \<and> cost_history ga' = cost_history ga
       \<and> latency_history ga' = latency_history ga"
  using update_best_solution_cases [OF assms] by auto

lemma record_history_entry:
  assumes "incumbent_is_best ga st"
  shows "fitness_history (record_history ga st)
           = fitness_history ga @ [fst (best_feasible_entry st (population ga))]
       \<and> cost_history (record_history ga st)
           = cost_history ga @ [fst (snd (best_feasible_entry st (population ga)))]
       \<and> latency_history (record_history ga st)
           = latency_history ga @ [snd (snd (best_feasible_entry st (population ga)))]"
proof (cases "feasible_members st (population ga)")
  case Nil
  then show ?thesis by (simp add: record_history_def best_feasible_entry_def)
next
  case (Cons r rs)
  let ?f = "\<lambda>r. fitness (store st r)"
  from assms Cons obtain b where
    b: "best_solution ga = Some b" "store st b = store st (min_by ?f r rs)"
    by (auto simp: incumbent_is_best_def)
  have m: "Min (set (map ?f (r # rs))) = ?f (min_by ?f r rs)" by (rule Min_min_by)
  show ?thesis
    unfolding record_history_def best_feasible_entry_def Cons
    by (simp only: list.case Let_def m) (simp add: b)
qed

lemma incumbent_is_best_record:
  "incumbent_is_best (record_history ga st0) st = incumbent_is_best ga st"
  by (simp add: incumbent_is_best_def record_history_fields cong: list.case_cong)

lemma take_pos_Cons: "0 < k \<Longrightarrow> take k (x # xs) = x # take (k - 1) xs"
  by (cases k) simp_all

lemma slice_to_subset: "set (slice_to xs n) \<subseteq> set xs"
  by (auto simp: slice_to_def dest: in_set_takeD)

lemma generation_step:
  assumes g: "generation cfg g ga st = Inr (ga', st')"
    and inv: "engine_inv cfg ga st"
  shows "engine_inv cfg ga' st'
       \<and> fitness_history ga'
           = fitness_history ga @ [fst (best_feasible_entry st' (population ga'))]
       \<and> cost_history ga'
           = cost_history ga @ [fst (snd (best_feasible_entry st' (population ga')))]
       \<and> latency_history ga'
           = latency_history ga @ [snd (snd (best_feasible_entry st' (population ga')))]"
proof -
  let ?f = "\<lambda>r. fitness (store st r)"
  let ?F = "feasible_members st (population ga)"
  let ?n = "nat (max 2 (population_size cfg div 10))"
  let ?elite = "take ?n (sort_key ?f ?F)"
  let ?ps = "population_size cfg"
  from inv have valid: "\<forall>r \<in> set (population ga). r < next_ref st"
    and empty: "?ps \<le> 0 \<longrightarrow> population ga = []"
    and best: "incumbent_is_best ga st"
    by (simp_all add: engine_inv_def)
  from g obtain np st1 ga2 where
    f: "fill_population cfg (float_sub 1 (float_div (real_of_int g) (real_of_int (generations cfg))))
          (population ga) ?elite st = Inr (np, st1)"
    and u: "update_best_solution (ga\<lparr>population := slice_to np ?ps\<rparr>) st1 = (ga2, st')"
    and r: "ga' = record_history ga2 st'"
    by (rule generationE)
  let ?ga1 = "ga\<lparr>population := slice_to np ?ps\<rparr>"
  note ff = fill_population_frame [OF f]
  from ff have pres: "preserves (next_ref st) st st1" by simp
  from ff obtain ext where np: "np = ?elite @ ext" by blast
  have esub: "set ?elite \<subseteq> set ?F" by (auto dest: in_set_takeD)
  have Fsub: "set ?F \<subseteq> set (population ga)" by (rule feasible_members_subset)
  from esub Fsub valid have "\<forall>r \<in> set ?elite. r < next_ref st" by blast
  with ff have npv: "\<forall>r \<in> set np. r < next_ref st1" by blast
  have valid1: "\<forall>r \<in> set (population ?ga1). r < next_ref st1"
    using npv slice_to_subset [of np ?ps] by auto
  have empty1: "?ps \<le> 0 \<longrightarrow> slice_to np ?ps = []"
  proof
    assume le: "?ps \<le> 0"
    with empty have "?F = []" by (simp add: feasible_members_def)
    then have "?elite = []" by simp
    moreover have "\<not> int (length ?elite) < ?ps" using le by simp
    ultimately have "np = []" using ff by simp
    then show "slice_to np ?ps = []" by (simp add: slice_to_def)
  qed
  have head: "incumbent_at_head ?ga1 st1"
  proof (cases ?F)
    case Nil
    with best show ?thesis by (simp add: incumbent_is_best_def incumbent_at_head_def)
  next
    case (Cons x xs)
    let ?mo = "min_by ?f x xs"
    from best Cons obtain b where
      b: "best_solution ga = Some b" "b < next_ref st" "store st b = store st ?mo"
      by (auto simp: incumbent_is_best_def)
    from Cons have "population ga \<noteq> []" by (auto simp: feasible_members_def)
    with empty have ps: "1 \<le> ?ps" by auto
    from sort_key_Cons_min_by [of ?f x xs] obtain tail where
      sk: "sort_key ?f ?F = ?mo # tail" unfolding Cons by blast
    have "0 < ?n" by simp
    then have "take ?n (?mo # tail) = ?mo # take (?n - 1) tail" by (rule take_pos_Cons)
    with sk np have np': "np = ?mo # (take (?n - 1) tail @ ext)" by simp
    from ps have "0 < nat ?ps" by simp
    then have "take (nat ?ps) (?mo # (take (?n - 1) tail @ ext))
        = ?mo # take (nat ?ps - 1) (take (?n - 1) tail @ ext)" by (rule take_pos_Cons)
    moreover from ps have "slice_to np ?ps = take (nat ?ps) np" by (simp add: slice_to_def)
    ultimately have pop1: "slice_to np ?ps = ?mo # take (nat ?ps - 1) (take (?n - 1) tail @ ext)"
      by (simp only: np')
    have "?mo \<in> set ?F" using min_by_mem [of ?f x xs] Cons by simp
    then have mo: "?mo \<in> set (population ga)" "is_feasible (store st ?mo)"
      by (simp_all add: feasible_members_def)
    with valid have "?mo < next_ref st" by simp
    with pres have mo1: "store st1 ?mo = store st ?mo" by (simp add: preserves_def)
    have b1: "store st1 b = store st b" "b < next_ref st1"
      using pres b(2) by (auto simp: preserves_def)
    have "feasible_members st1 (slice_to np ?ps)
        = ?mo # feasible_members st1 (take (nat ?ps - 1) (take (?n - 1) tail @ ext))"
      unfolding pop1 using mo(2) mo1 by (simp add: feasible_members_def)
    with b b1 mo1 show ?thesis by (simp add: incumbent_at_head_def)
  qed
  note t = update_best_solution_tracks [OF u valid1 head]
  from t have pop2: "population ga2 = slice_to np ?ps" by simp
  from t have ib: "incumbent_is_best ga2 st'" and nx: "next_ref st1 \<le> next_ref st'" by simp_all
  have v2: "\<forall>r \<in> set (population ga2). r < next_ref st'"
  proof
    fix x assume "x \<in> set (population ga2)"
    with valid1 pop2 have "x < next_ref st1" by simp
    with nx show "x < next_ref st'" by simp
  qed
  have "engine_inv cfg ga' st'"
    unfolding engine_inv_def r record_history_fields incumbent_is_best_record
    using v2 empty1 ib by (simp add: pop2)
  moreover note record_history_entry [OF ib]
  moreover note update_best_solution_histories [OF u]
  ultimately show ?thesis
    unfolding r by (simp add: record_history_fields)
qed


lemma initialize_population_inv:
  assumes "initialize_population cfg new_ga st = Inr (ga1, st1)"
  shows "engine_inv cfg ga1 st1 \<and> fitness_history ga1 = [] \<and> cost_history ga1 = []
       \<and> latency_history ga1 = []"
proof -
  from assms obtain pop st0 where
    c: "create_population cfg (nat (population_size cfg)) st = Inr (pop, st0)"
    and u: "update_best_solution (new_ga\<lparr>population := pop\<rparr>) st0 = (ga1, st1)"
    by (auto simp: initialize_population_def split: sum.splits)
  note v = create_population_valid [OF c]
  have valid: "\<forall>r \<in> set (population (new_ga\<lparr>population := pop\<rparr>)). r < next_ref st0"
    using v by simp
  have head: "incumbent_at_head (new_ga\<lparr>population := pop\<rparr>) st0"
    by (simp add: incumbent_at_head_def new_ga_def)
  note t = update_best_solution_tracks [OF u valid head]
  have "\<forall>r \<in> set (population ga1). r < next_ref st1"
  proof
    fix x assume "x \<in> set (population ga1)"
    with t v have "x < next_ref st0" by simp
    with t show "x < next_ref st1" by simp
  qed
  moreover have "population_size cfg \<le> 0 \<longrightarrow> population ga1 = []"
    using t v by auto
  ultimately have "engine_inv cfg ga1 st1" using t by (simp add: engine_inv_def)
  with update_best_solution_histories [OF u] show ?thesis by (simp add: new_ga_def)
qed

lemma run_generations_append:
  "run_generations cfg (xs @ ys) ga st =
     (case run_generations cfg xs ga st of
        Inl e \<Rightarrow> Inl e
      | Inr (ga1, st1) \<Rightarrow> run_generations cfg ys ga1 st1)"
  by (induction xs arbitrary: ga st) (auto split: sum.splits)

lemma run_generations_histories:
  "run_generations cfg gs ga st = Inr (ga', st') \<Longrightarrow> engine_inv cfg ga st \<Longrightarrow>
     engine_inv cfg ga' st'
     \<and> (\<exists>fs cs ls. length fs = length gs \<and> length cs = length gs \<and> length ls = length gs
           \<and> fitness_history ga' = fitness_history ga @ fs
           \<and> cost_history ga' = cost_history ga @ cs
           \<and> latency_history ga' = latency_history ga @ ls)"
proof (induction gs arbitrary: ga st)
  case Nil
  then show ?case by simp
next
  case (Cons g gs)
  from Cons.prems(1) obtain ga1 st1 where
    g: "generation cfg g ga st = Inr (ga1, st1)"
    and r: "run_generations cfg gs ga1 st1 = Inr (ga', st')"
    by (auto split: sum.splits)
  note s = generation_step [OF g Cons.prems(2)]
  from s have inv1: "engine_inv cfg ga1 st1" by simp
  from Cons.IH [OF r inv1] obtain fs cs ls where
    i: "engine_inv cfg ga' st'"
    and l: "length fs = length gs" "length cs = length gs" "length ls = length gs"
    and h: "fitness_history ga' = fitness_history ga1 @ fs"
      "cost_history ga' = cost_history ga1 @ cs"
      "latency_history ga' = latency_history ga1 @ ls"
    by blast
  let ?e = "best_feasible_entry st1 (population ga1)"
  have "length (fst ?e # fs) = length (g # gs)" "length (fst (snd ?e) # cs) = length (g # gs)"
    "length (snd (snd ?e) # ls) = length (g # gs)"
    "fitness_history ga' = fitness_history ga @ (fst ?e # fs)"
    "cost_history ga' = cost_history ga @ (fst (snd ?e) # cs)"
    "latency_history ga' = latency_history ga @ (snd (snd ?e) # ls)"
    using s l h by simp_all
  with i show ?case by blast
qed

lemma evolve_upto_all: "evolve cfg ga st = evolve_upto cfg (nat (generations cfg)) ga st"
  by (simp add: evolve_def evolve_upto_def)

lemma ex7_evaluate:
  assumes pm: "placement_map s = [(0, Some 0)]" and am: "assignment_map s = [(0, Some 0)]"
  shows "evaluate ex7_problem (1/2) s
     = Inr (s\<lparr>total_cost := 100, total_latency := 5, is_feasible := True,
              fitness := ex2_fitness 100\<rparr>)"
proof -
  have sl: "sites_loop ex7_problem [(0, Some 0)] (0, []) = Inr (100, [(0, zero_usage)])"
    by (simp add: ex7_problem_def ex_type_def py_index_def dict_set_def zero_usage_def)
  have dl: "devices_loop ex7_problem s (devices ex7_problem) (True, [(0, zero_usage)], 0)
      = Inr (True, [(0, \<lparr>cpu = 1, memory = 2, storage = 5\<rparr>)], 5)"
    by (simp add: pm am ex7_problem_def ex_type_def ex_device_def py_index_def dict_set_def
      dict_get_def dict_item_def get_distance_def float_add_nat zero_usage_def)
  have ul: "usage_loop ex7_problem [(0, Some 0)] [(0, \<lparr>cpu = 1, memory = 2, storage = 5\<rparr>)] True
      = Inr True"
    by (simp add: ex7_problem_def ex_type_def py_index_def dict_item_def)
  have en: "entries_loop [(0, Some 0)] [(0, Some 0)] True"
    by (simp add: dict_get_def)
  have bd: "max_possible_cost ex7_problem = 120" "max_possible_latency ex7_problem = 1 * 1000 * sqrt 2"
    by (simp_all add: max_possible_cost_def max_possible_latency_def ex7_problem_def ex_type_def
        ex_device_def)
  show ?thesis
    unfolding evaluate_def pm am sl
    by (simp only: en dl ul bd sum.case prod.case Let_def if_True if_False ex2_fitness_def)
      simp
qed

lemma ex7_assign_nearest:
  assumes "placement_map s = [(0, Some 0)]" and "assignment_map s = [(0, None)]"
  shows "assign_nearest ex7_problem [ex_device 0 0] s = Inr (s\<lparr>assignment_map := [(0, Some 0)]\<rparr>)"
  using assms
  by (simp add: ex7_problem_def ex_device_def ex_type_def dict_item_def py_index_def
      get_distance_def nearest_def assign_device_def dict_contains_def dict_get_def dict_set_def)

lemma ex7_init: "init_solution ex7_problem
   = \<lparr>placement_map = [(0, None)], assignment_map = [(0, None)],
      total_cost = 0, total_latency = 0, fitness = Fin 0, is_feasible = False\<rparr>"
  by (simp add: init_solution_def ex7_problem_def ex_device_def dict_set_def)

lemma ex7_create_random_solution:
  "\<exists>st'. create_random_solution ex7_cfg st = Inr (next_ref st, st')
      \<and> next_ref st' = Suc (next_ref st)
      \<and> is_feasible (store st' (next_ref st))"
proof -
  let ?s0 = "init_solution ex7_problem"
  let ?s1 = "place_cloudlet ?s0 0 0"
  have pm: "placement_map ?s1 = [(0, Some 0)]" and am: "assignment_map ?s1 = [(0, None)]"
    by (simp_all add: ex7_init place_cloudlet_def dict_contains_def dict_set_def)
  let ?s2 = "?s1\<lparr>assignment_map := [(0, Some 0)]\<rparr>"
  have pm2: "placement_map ?s2 = [(0, Some 0)]" and am2: "assignment_map ?s2 = [(0, Some 0)]"
    using pm by simp_all
  have p: "ga_problem ex7_cfg = ex7_problem" "ga_alpha ex7_cfg = 1/2" by (simp_all add: ex7_cfg_def)
  have l: "candidate_points ex7_problem = [\<lparr>cp_id = 0, cp_x = 5, cp_y = 0, placement_cost_factor = 1\<rparr>]"
    "cloudlet_types ex7_problem = [ex_type]" "devices ex7_problem = [ex_device 0 0]"
    by (simp_all add: ex7_problem_def)
  have i: "ct_id ex_type = 0" by (simp add: ex_type_def)
  show ?thesis
    by (simp add: create_random_solution_def p l new_object_def randint_one sample_one choice_one
        shuffle_one draw_snd i modify_obj_def
        ex7_assign_nearest [OF pm am] ex7_evaluate [OF pm2 am2] del: assign_nearest.simps)
qed

lemma ex7_evolve: "\<exists>ga' st'. evolve ex7_cfg new_ga st = Inr (ga', st')"
proof -
  let ?r = "next_ref st"
  from ex7_create_random_solution [of st] obtain sta where
    c: "create_random_solution ex7_cfg st = Inr (?r, sta)"
    and n: "next_ref sta = Suc ?r" and fe: "is_feasible (store sta ?r)"
    by blast
  have ps: "population_size ex7_cfg = 1" by (simp add: ex7_cfg_def)
  have cp: "create_population ex7_cfg (nat (population_size ex7_cfg)) st = Inr ([?r], sta)"
    by (simp add: ps c)
  define stb where "stb = sta\<lparr>next_ref := Suc (Suc ?r), store := (store sta)(Suc ?r := store sta ?r)\<rparr>"
  define ga1 where "ga1 = new_ga\<lparr>population := [?r], best_solution := Some (Suc ?r)\<rparr>"
  have fa: "feasible_members sta [?r] = [?r]" using fe by (simp add: feasible_members_def)
  have u: "update_best_solution (new_ga\<lparr>population := [?r]\<rparr>) sta = (ga1, stb)"
    unfolding update_best_solution_def
    by (simp add: fa new_ga_def clone_obj_def new_object_def clone_id n ga1_def stb_def)
  have init: "initialize_population ex7_cfg new_ga st = Inr (ga1, stb)"
    by (simp add: initialize_population_def cp u)
  have sb: "store stb ?r = store sta ?r" "store stb (Suc ?r) = store sta ?r"
    by (simp_all add: stb_def)
  have fb: "feasible_members stb [?r] = [?r]" using fe sb by (simp add: feasible_members_def)
  have pg: "population ga1 = [?r]" "best_solution ga1 = Some (Suc ?r)" by (simp_all add: ga1_def)
  have fill: "fill_population ex7_cfg T [?r] [?r] stb = Inr ([?r], stb)" for T
    by (subst fill_population.simps) (simp add: ps)
  have g1: "ga1\<lparr>population := [?r]\<rparr> = ga1" by (simp add: ga1_def)
  have u2: "update_best_solution ga1 stb = (ga1, stb)"
    unfolding update_best_solution_def pg fb by (simp add: sb)
  have "generation ex7_cfg 0 ga1 stb = Inr (record_history ga1 stb, stb)"
    by (simp add: generation_def pg fb fill ps slice_to_def g1 u2)
  then have "run_generations ex7_cfg (map int [0..<nat (generations ex7_cfg)]) ga1 stb
      = Inr (record_history ga1 stb, stb)"
    by (simp add: ex7_cfg_def)
  with init show ?thesis by (simp add: evolve_def)
qed

section \<open>Feasibility and fitness (claims C1, C2)\<close>

text \<open>
  Claim C1, as amended. After \<open>evaluate\<close> returns, the feasibility flag is true if and
  only if every device of the scenario has a non-empty assignment, every entry of the
  assignment mapping (also one whose key is no device of the scenario) holds a site, and
  that site holds a facility type, every assigned device is within the coverage radius
  of the type at its site, and at every occupied site the cpu, memory and storage
  demands of the devices assigned to it, added one after the other in the order of the
  scenario's devices with every partial sum rounded to a double, do not exceed the three
  capacities of the type placed there. The two mappings are Python dicts, so each key
  occurs once.
\<close>

theorem evaluate_feasible_iff:
  assumes ev: "evaluate p alpha s = Inr s'"
    and dp: "distinct (map fst (placement_map s))"
    and da: "distinct (map fst (assignment_map s))"
  shows "is_feasible s' \<longleftrightarrow>
     (\<forall>d \<in> set (devices p). dict_get (assignment_map s) (dev_id d) \<noteq> None)
   \<and> (\<forall>e \<in> set (assignment_map s). snd e \<noteq> None)
   \<and> (\<forall>e \<in> set (assignment_map s). \<forall>c. snd e = Some c \<longrightarrow> dict_get (placement_map s) c \<noteq> None)
   \<and> (\<forall>d \<in> set (devices p). \<forall>c t ct.
         dict_get (assignment_map s) (dev_id d) = Some c \<longrightarrow>
         dict_get (placement_map s) c = Some t \<longrightarrow>
         py_index (cloudlet_types p) t = Inr ct \<longrightarrow>
         get_distance p (dev_id d) c \<le> Fin (coverage_radius ct))
   \<and> (\<forall>c t ct.
         dict_get (placement_map s) c = Some t \<longrightarrow>
         py_index (cloudlet_types p) t = Inr ct \<longrightarrow>
         float_sum (map cpu_demand (get_devices_assigned_to p s c)) \<le> cpu_capacity ct
         \<and> float_sum (map memory_demand (get_devices_assigned_to p s c)) \<le> memory_capacity ct
         \<and> float_sum (map storage_demand (get_devices_assigned_to p s c)) \<le> storage_capacity ct)"
  (is "_ \<longleftrightarrow> ?A \<and> ?B \<and> ?C \<and> ?D \<and> ?E")
proof -
  let ?pm = "placement_map s" and ?am = "assignment_map s"
  from ev obtain cost usage0 feas2 ru lat feas3 where
    sl: "sites_loop p ?pm (0, []) = Inr (cost, usage0)" and
    dl: "devices_loop p s (devices p) (entries_loop ?pm ?am True, usage0, 0) = Inr (feas2, ru, lat)" and
    ul: "usage_loop p ?pm ru feas2 = Inr feas3" and
    fs: "is_feasible s' = (None \<notin> set (map snd ?am) \<and> feas3)"
    by (auto simp: evaluate_def Let_def split: sum.splits prod.splits if_splits)
  have f2: "feas2 = (list_all (entry_ok ?pm) ?am \<and> list_all (dev_ok p s) (devices p))"
    using devices_loop_feas [OF dl] by (simp add: entries_loop_eq)
  have dru: "distinct (map fst ru)"
    using devices_loop_distinct [OF dl] sites_loop_distinct [OF sl] by simp
  have f3: "feas3 = (feas2 \<and> (\<forall>c u. map_of ru c = Some u \<longrightarrow> usage_ok p ?pm (c, u)))"
    using usage_loop_feas [OF ul] list_all_map_of [OF dru] by simp
  have ru: "map_of ru c = (if occupied_in ?pm c
      then Some (add_usage zero_usage (filter (covered_at p s c) (devices p))) else None)" for c
    using devices_loop_usage [OF dl, of c] sites_loop_usage [OF sl, of c] by simp
  have types: "\<exists>ct. py_index (cloudlet_types p) t = Inr ct" if "dict_get ?pm c = Some t" for c t
    using sites_loop_types [OF sl] dict_get_SomeD [OF that] by blast
  have B: "?B = (None \<notin> set (map snd ?am))"
    by force
  have entries: "list_all (entry_ok ?pm) ?am = (?B \<and> ?C)"
    by (auto simp: list_all_iff entry_ok_def split: option.splits)
  have devs: "list_all (dev_ok p s) (devices p) = (?A \<and> ?D)" if "?C"
  proof -
    have "dev_ok p s d = (dict_get ?am (dev_id d) \<noteq> None \<and> (\<forall>c t ct.
         dict_get ?am (dev_id d) = Some c \<longrightarrow> dict_get ?pm c = Some t \<longrightarrow>
         py_index (cloudlet_types p) t = Inr ct \<longrightarrow>
         get_distance p (dev_id d) c \<le> Fin (coverage_radius ct)))" for d
    proof (cases "dict_get ?am (dev_id d)")
      case None
      then show ?thesis by (simp add: dev_ok_def)
    next
      case (Some c)
      from dict_get_SomeD [OF Some] \<open>?C\<close> obtain t where t: "dict_get ?pm c = Some t"
        by fastforce
      from types [OF t] obtain ct where "py_index (cloudlet_types p) t = Inr ct" by blast
      with Some t show ?thesis by (simp add: dev_ok_def)
    qed
    then show ?thesis by (auto simp: list_all_iff)
  qed
  have caps: "(\<forall>c u. map_of ru c = Some u \<longrightarrow> usage_ok p ?pm (c, u)) = ?E"
    if all: "list_all (dev_ok p s) (devices p)"
  proof -
    have flt: "filter (covered_at p s c) (devices p) = get_devices_assigned_to p s c" for c
      using all unfolding get_devices_assigned_to_filter [OF da]
      by (intro filter_cong) (auto simp: covered_at_def list_all_iff)
    have uo: "usage_ok p ?pm (c, u) = (\<forall>t ct. dict_get ?pm c = Some t \<longrightarrow>
        py_index (cloudlet_types p) t = Inr ct \<longrightarrow> within_capacity u ct)"
      if "dict_get ?pm c = Some t0" for c u t0
    proof -
      from types [OF that] obtain ct0 where "py_index (cloudlet_types p) t0 = Inr ct0" by blast
      with that show ?thesis by (simp add: usage_ok_def)
    qed
    have "(\<forall>c u. map_of ru c = Some u \<longrightarrow> usage_ok p ?pm (c, u)) =
       (\<forall>c t ct. dict_get ?pm c = Some t \<longrightarrow> py_index (cloudlet_types p) t = Inr ct \<longrightarrow>
          within_capacity (add_usage zero_usage (get_devices_assigned_to p s c)) ct)"
      unfolding ru flt occupied_in_iff [OF dp] using uo by (auto split: if_splits)
    then show ?thesis
      by (simp add: within_capacity_def add_usage_def zero_usage_def float_sum_map)
  qed
  show ?thesis
  proof
    assume "is_feasible s'"
    with fs f3 f2 have n: "None \<notin> set (map snd ?am)" and e: "list_all (entry_ok ?pm) ?am"
      and d: "list_all (dev_ok p s) (devices p)"
      and u: "\<forall>c u. map_of ru c = Some u \<longrightarrow> usage_ok p ?pm (c, u)"
      by simp_all
    from e entries have "?B" "?C" by simp_all
    moreover from d devs [OF \<open>?C\<close>] have "?A" "?D" by simp_all
    moreover from u caps [OF d] have "?E" by simp
    ultimately show "?A \<and> ?B \<and> ?C \<and> ?D \<and> ?E" by simp
  next
    assume r: "?A \<and> ?B \<and> ?C \<and> ?D \<and> ?E"
    then have "?A" "?B" "?C" "?D" "?E" by simp_all
    from \<open>?B\<close> \<open>?C\<close> entries have e: "list_all (entry_ok ?pm) ?am" by simp
    from \<open>?A\<close> \<open>?D\<close> devs [OF \<open>?C\<close>] have d: "list_all (dev_ok p s) (devices p)" by simp
    from \<open>?E\<close> caps [OF d] have u: "\<forall>c u. map_of ru c = Some u \<longrightarrow> usage_ok p ?pm (c, u)" by simp
    from \<open>?B\<close> B have "None \<notin> set (map snd ?am)" by simp
    with e d u show "is_feasible s'" unfolding fs f3 f2 by simp
  qed
qed

theorem evaluate_feasible_iff_witness:
  "evaluate ex_problem (1/2) ex_solution = Inr (ex_evaluated (1/2))
   \<and> is_feasible (ex_evaluated (1/2))
   \<and> float_sum (map cpu_demand (get_devices_assigned_to ex_problem ex_solution 0)) \<le> 4"
proof -
  have d1: "distinct (map fst (placement_map ex_solution))"
    and d2: "distinct (map fst (assignment_map ex_solution))"
    by (simp_all add: ex_solution_def)
  have f: "is_feasible (ex_evaluated (1/2))" by (simp add: ex_evaluated_def)
  have g: "dict_get (placement_map ex_solution) 0 = Some 0"
    by (simp add: ex_solution_def dict_get_def)
  have h: "py_index (cloudlet_types ex_problem) 0 = Inr ex_type"
    by (simp add: ex_problem_def py_index_def)
  from evaluate_feasible_iff [OF ex_evaluate d1 d2, of "1/2"] f g h
  have "float_sum (map cpu_demand (get_devices_assigned_to ex_problem ex_solution 0))
          \<le> cpu_capacity ex_type"
    by blast
  with f ex_evaluate show ?thesis by (simp add: ex_type_def)
qed

text \<open>
  Claim C1 as stated fails: with an entry in the assignment mapping for a device the
  scenario does not have, every device of the scenario is assigned to an occupied site
  in its radius and within capacity, and the flag is false.
\<close>

theorem evaluate_stale_entry_counterexample:
  "spec_feasible ex_problem ex_stale
   \<and> (\<exists>s'. evaluate ex_problem (1/2) ex_stale = Inr s' \<and> \<not> is_feasible s')"
proof -
  have "spec_feasible ex_problem ex_stale"
    by (simp add: spec_feasible_def ex_stale_def ex_problem_def ex_solution_def ex_type_def
        ex_device_def py_index_def dict_get_def get_distance_def get_devices_assigned_to_def)
  then show ?thesis by (simp add: ex_stale_evaluate)
qed

lemma sum_list_scaled: "sum_list (map (\<lambda>x. f x * (c::real)) xs) = c * sum_list (map f xs)"
  by (induction xs) (simp_all add: algebra_simps)

lemma max_possible_cost_eq:
  "max_possible_cost p = 1.2 * sum_list (map base_cost (cloudlet_types p))"
  unfolding max_possible_cost_def by (rule sum_list_scaled)

text \<open>
  Claim C2, as the code has it. For a feasible solution \<open>evaluate\<close> stores
  \<open>alpha * (cost / (1.2 * sum of base costs)) + (1 - alpha) * (latency / (devices * 1000 * sqrt 2))\<close>:
  the multiplier 1.2 and the diagonal of a 1000 by 1000 square are constants of the
  code, not read from the scenario. For an infeasible solution it stores infinity,
  whatever \<open>alpha\<close> is.
\<close>

theorem evaluate_fitness_fixed_bounds:
  assumes "evaluate p alpha s = Inr s'"
  shows "fitness s' =
     (if is_feasible s'
      then Fin (alpha * (total_cost s' / (1.2 * sum_list (map base_cost (cloudlet_types p))))
                + (1 - alpha) * (total_latency s' / (real (length (devices p)) * 1000 * sqrt 2)))
      else PInf)"
proof -
  have "fitness s' =
     (if is_feasible s'
      then Fin (alpha * (total_cost s' / max_possible_cost p)
                + (1 - alpha) * (total_latency s' / max_possible_latency p))
      else PInf)"
    using assms
    by (auto simp: evaluate_def Let_def split: sum.splits prod.splits if_splits)
  then show ?thesis
    unfolding max_possible_cost_eq max_possible_latency_def .
qed

theorem evaluate_fitness_fixed_bounds_witness:
  "evaluate ex_problem (1/2) ex_solution = Inr (ex_evaluated (1/2))
   \<and> fitness (ex_evaluated (1/2)) = Fin (1/2 * (100 / 120) + 1/2 * (20 / (3 * 1000 * sqrt 2)))"
  using evaluate_fitness_fixed_bounds [OF ex_evaluate, of "1/2"] ex_evaluate
  by (simp add: ex_evaluated_def ex_problem_def ex_type_def)

text \<open>
  The small scenario has site multiplier 1 and a bounding box of diagonal 20. With
  \<open>alpha = 1\<close> the code stores 100 / 120, where normalising by the scenario's own
  largest multiplier gives 100 / 100.
\<close>

theorem evaluate_fitness_scenario_bounds_counterexample:
  "evaluate ex_problem 1 ex_solution = Inr (ex_evaluated 1)
   \<and> is_feasible (ex_evaluated 1)
   \<and> fitness (ex_evaluated 1)
       \<noteq> Fin (spec_fitness ex_problem 1 (total_cost (ex_evaluated 1)) (total_latency (ex_evaluated 1)))"
proof -
  have "fitness (ex_evaluated 1) = Fin (5 / 6)"
    by (simp add: ex_evaluated_def)
  moreover have "spec_fitness ex_problem 1 (total_cost (ex_evaluated 1))
      (total_latency (ex_evaluated 1)) = 1"
    by (simp add: ex_evaluated_def spec_fitness_def max_site_multiplier_def ex_problem_def
        ex_type_def)
  moreover have "is_feasible (ex_evaluated 1)"
    by (simp add: ex_evaluated_def)
  ultimately show ?thesis
    using ex_evaluate [of 1] by simp
qed

section \<open>Unknown ids (claim C8)\<close>

text \<open>
  Claim C8 says that \<open>assign_device\<close> with an unknown device id is a no-op. The
  method guards the site only: with a device id 99 that the assignment mapping does
  not hold and the occupied site 0, it adds the key 99 to the mapping.
\<close>

theorem assign_device_unknown_device_adds_key:
  "\<not> dict_contains (assignment_map ex_solution) 99
   \<and> assignment_map (assign_device ex_solution 99 0) = assignment_map ex_solution @ [(99, Some 0)]"
  by (simp add: assign_device_def ex_solution_def dict_contains_def dict_get_def dict_set_def)

section \<open>Neutral rates (claim C7)\<close>

text \<open>
  Claim C7. With crossover rate 0, for parents (existing objects) whose stored fitness
  is what \<open>evaluate\<close> computes on their mappings, \<open>crossover\<close> returns two children
  whose placement mapping, assignment mapping and fitness are those of their
  respective parents. With mutation rate 0, \<open>mutate\<close> returns a solution with the
  placement mapping, assignment mapping and fitness of its input.
\<close>

theorem neutral_rates:
  "(crossover_rate cfg = 0 \<longrightarrow>
      parent1 < next_ref st \<longrightarrow> parent2 < next_ref st \<longrightarrow>
      evaluate (ga_problem cfg) (ga_alpha cfg) (store st parent1) = Inr s1 \<longrightarrow>
      fitness s1 = fitness (store st parent1) \<longrightarrow>
      evaluate (ga_problem cfg) (ga_alpha cfg) (store st parent2) = Inr s2 \<longrightarrow>
      fitness s2 = fitness (store st parent2) \<longrightarrow>
      (\<exists>child1 child2 st'.
          crossover cfg parent1 parent2 st = Inr ((child1, child2), st')
          \<and> placement_map (store st' child1) = placement_map (store st parent1)
          \<and> assignment_map (store st' child1) = assignment_map (store st parent1)
          \<and> fitness (store st' child1) = fitness (store st parent1)
          \<and> placement_map (store st' child2) = placement_map (store st parent2)
          \<and> assignment_map (store st' child2) = assignment_map (store st parent2)
          \<and> fitness (store st' child2) = fitness (store st parent2)))
   \<and> (mutation_rate cfg = 0 \<longrightarrow>
      evaluate (ga_problem cfg) (ga_alpha cfg) (store st solution) = Inr s \<longrightarrow>
      fitness s = fitness (store st solution) \<longrightarrow>
      (\<exists>mutated st'.
          mutate cfg solution st = Inr (mutated, st')
          \<and> placement_map (store st' mutated) = placement_map (store st solution)
          \<and> assignment_map (store st' mutated) = assignment_map (store st solution)
          \<and> fitness (store st' mutated) = fitness (store st solution)))"
proof (intro conjI impI)
  assume z: "crossover_rate cfg = 0"
    and a1: "parent1 < next_ref st" and a2: "parent2 < next_ref st"
    and e1: "evaluate (ga_problem cfg) (ga_alpha cfg) (store st parent1) = Inr s1"
    and f1: "fitness s1 = fitness (store st parent1)"
    and e2: "evaluate (ga_problem cfg) (ga_alpha cfg) (store st parent2) = Inr s2"
    and f2: "fitness s2 = fitness (store st parent2)"
  from crossover_rate_zero [OF z e1 e2 a2] obtain st' where
    "crossover cfg parent1 parent2 st = Inr ((next_ref st, Suc (next_ref st)), st')"
    "store st' (next_ref st) = s1" "store st' (Suc (next_ref st)) = s2" by blast
  with evaluate_maps [OF e1] evaluate_maps [OF e2] f1 f2
  show "\<exists>child1 child2 st'.
          crossover cfg parent1 parent2 st = Inr ((child1, child2), st')
          \<and> placement_map (store st' child1) = placement_map (store st parent1)
          \<and> assignment_map (store st' child1) = assignment_map (store st parent1)
          \<and> fitness (store st' child1) = fitness (store st parent1)
          \<and> placement_map (store st' child2) = placement_map (store st parent2)
          \<and> assignment_map (store st' child2) = assignment_map (store st parent2)
          \<and> fitness (store st' child2) = fitness (store st parent2)"
    by auto
next
  assume z: "mutation_rate cfg = 0"
    and e: "evaluate (ga_problem cfg) (ga_alpha cfg) (store st solution) = Inr s"
    and f: "fitness s = fitness (store st solution)"
  from mutation_rate_zero [OF z e] obtain st' where
    "mutate cfg solution st = Inr (next_ref st, st')" "store st' (next_ref st) = s" by blast
  with evaluate_maps [OF e] f
  show "\<exists>mutated st'.
          mutate cfg solution st = Inr (mutated, st')
          \<and> placement_map (store st' mutated) = placement_map (store st solution)
          \<and> assignment_map (store st' mutated) = assignment_map (store st solution)
          \<and> fitness (store st' mutated) = fitness (store st solution)"
    by auto
qed

theorem neutral_rates_witness:
  "\<exists>child1 child2 st' mutated st''.
      crossover ex_cfg 0 0 ex_state = Inr ((child1, child2), st')
      \<and> placement_map (store st' child1) = [(0, Some 0)]
      \<and> fitness (store st' child2) = fitness (ex_evaluated (1/2))
      \<and> mutate ex_cfg 0 ex_state = Inr (mutated, st'')
      \<and> assignment_map (store st'' mutated) = [(0, Some 0), (1, Some 0), (2, Some 0)]"
proof -
  have s0: "store ex_state 0 = ex_evaluated (1/2)" by (simp add: ex_state_def)
  have e: "evaluate (ga_problem ex_cfg) (ga_alpha ex_cfg) (store ex_state 0) = Inr (ex_evaluated (1/2))"
    unfolding s0 by (simp add: ex_cfg_def ex_evaluated_again)
  have z: "crossover_rate ex_cfg = 0" "mutation_rate ex_cfg = 0" by (simp_all add: ex_cfg_def)
  have f: "fitness (ex_evaluated (1/2)) = fitness (store ex_state 0)"
    unfolding s0 ..
  have m: "placement_map (store ex_state 0) = [(0, Some 0)]"
    "assignment_map (store ex_state 0) = [(0, Some 0), (1, Some 0), (2, Some 0)]"
    unfolding s0 by (simp_all add: ex_evaluated_def ex_solution_def)
  have a: "(0::nat) < next_ref ex_state" by (simp add: ex_state_def)
  note n = neutral_rates [where cfg = ex_cfg and st = ex_state and ?parent1.0 = 0 and ?parent2.0 = 0
      and solution = 0 and ?s1.0 = "ex_evaluated (1/2)" and ?s2.0 = "ex_evaluated (1/2)"
      and s = "ex_evaluated (1/2)"]
  from n z(1) a e f obtain child1 child2 st' where
    c: "crossover ex_cfg 0 0 ex_state = Inr ((child1, child2), st')"
    "placement_map (store st' child1) = placement_map (store ex_state 0)"
    "fitness (store st' child2) = fitness (store ex_state 0)"
    by blast
  from n z(2) e f obtain mutated st'' where
    d: "mutate ex_cfg 0 ex_state = Inr (mutated, st'')"
    "assignment_map (store st'' mutated) = assignment_map (store ex_state 0)"
    by blast
  from c d show ?thesis unfolding m f [symmetric] by blast
qed

section \<open>Simulated annealing (claim C5)\<close>

text \<open>
  Claim C5, as the code has it. \<open>simulated_annealing_improvement\<close> returns its input
  solution, with nothing changed, when annealing is off or the temperature is below
  0.1. Otherwise it clones the input and takes exactly 5 neighbour steps from the
  clone, accepting an improving neighbour always and another one by the Metropolis
  test, and returns the solution the walk ends at (the last one accepted), which
  need not be the best one met on the way.
\<close>

theorem simulated_annealing_walk:
  "(\<not> use_sa cfg \<or> temperature < 0.1 \<longrightarrow>
      simulated_annealing_improvement cfg solution temperature st = Inr (solution, st))
   \<and> (use_sa cfg \<longrightarrow> 0.1 \<le> temperature \<longrightarrow> solution < next_ref st \<longrightarrow>
      simulated_annealing_improvement cfg solution temperature st = Inr (improved, st') \<longrightarrow>
      (\<exists>current st1. clone_obj solution st = (current, st1)
          \<and> store st1 current = store st solution
          \<and> sa_walk cfg temperature 5 current st1 improved st'))"
proof -
  have a: "\<not> use_sa cfg \<or> temperature < 0.1 \<longrightarrow>
      simulated_annealing_improvement cfg solution temperature st = Inr (solution, st)"
    by (auto simp: simulated_annealing_improvement_def)
  have b: "\<exists>current st1. clone_obj solution st = (current, st1)
          \<and> store st1 current = store st solution
          \<and> sa_walk cfg temperature 5 current st1 improved st'"
    if u: "use_sa cfg" and t: "0.1 \<le> temperature" and al: "solution < next_ref st"
      and r: "simulated_annealing_improvement cfg solution temperature st = Inr (improved, st')"
  proof -
    obtain current st1 where k: "clone_obj solution st = (current, st1)"
      by (cases "clone_obj solution st")
    from clone_obj_frame [OF k] have c: "current = next_ref st" "next_ref st1 = Suc (next_ref st)"
      "store st1 = (store st)(current := store st solution)" by simp_all
    from r u t k have "sa_loop cfg temperature 5 current (fitness (store st1 current)) st1
        = Inr (improved, st')"
      by (simp add: simulated_annealing_improvement_def)
    from sa_loop_walk [OF this] c have "sa_walk cfg temperature 5 current st1 improved st'"
      by simp
    with k c show ?thesis by simp
  qed
  from a b show ?thesis by blast
qed

theorem simulated_annealing_walk_witness:
  "simulated_annealing_improvement ex_cfg 0 1 ex_state = Inr (0, ex_state)
   \<and> (\<exists>improved st' current st1.
        simulated_annealing_improvement ex2_cfg 0 1 ex2_state = Inr (improved, st')
        \<and> clone_obj 0 ex2_state = (current, st1)
        \<and> sa_walk ex2_cfg 1 5 current st1 improved st')"
proof -
  from ex2_annealing obtain improved st' where
    r: "simulated_annealing_improvement ex2_cfg 0 1 ex2_state = Inr (improved, st')" by blast
  have a: "use_sa ex2_cfg" "(0.1::real) \<le> 1" "(0::nat) < next_ref ex2_state" "\<not> use_sa ex_cfg"
    by (simp_all add: ex2_cfg_def ex2_state_def ex_cfg_def)
  from simulated_annealing_walk [of ex2_cfg 1 0 ex2_state improved st'] a r
  have "\<exists>current st1. clone_obj 0 ex2_state = (current, st1)
          \<and> sa_walk ex2_cfg 1 5 current st1 improved st'" by blast
  moreover from simulated_annealing_walk [of ex_cfg 1 0 ex_state] a
  have "simulated_annealing_improvement ex_cfg 0 1 ex_state = Inr (0, ex_state)" by blast
  ultimately show ?thesis using r by blast
qed

text \<open>
  In the two-site scenario with every draw 0, the first step adds a facility at the
  second site: the neighbour costs more, is accepted by the Metropolis test, and the
  later steps change nothing. The solution returned has a strictly higher fitness
  than the input solution the walk started from.
\<close>

theorem sa_returns_last_not_best_counterexample:
  "\<exists>improved st'. simulated_annealing_improvement ex2_cfg 0 1 ex2_state = Inr (improved, st')
      \<and> fitness (store ex2_state 0) < fitness (store st' improved)"
proof -
  from ex2_annealing obtain improved st' where
    "simulated_annealing_improvement ex2_cfg 0 1 ex2_state = Inr (improved, st')"
    "fitness (store st' improved) = ex2_fitness 200" by blast
  moreover have "fitness (store ex2_state 0) = ex2_fitness 100"
    by (simp add: ex2_state_def ex2_solution_def)
  ultimately show ?thesis using ex2_fitness_order(1) by auto
qed

section \<open>Repair (claim C4)\<close>





section \<open>The incumbent (claim C6)\<close>

text \<open>
  Claim C6. \<open>update_best_solution\<close> either leaves the engine and the state as they are,
  or it stores as incumbent a new object, a copy of a feasible member \<open>m\<close> of the
  population whose fitness is the lowest among the feasible members, and it does so only
  when there was no incumbent or the fitness of \<open>m\<close> is strictly below the incumbent's;
  the population's objects are not touched. Across any run of generations that starts
  with an incumbent, there is an incumbent at the end and its fitness is not above the
  fitness of the incumbent at the start.
\<close>

theorem incumbent_fitness_non_increasing:
  "(update_best_solution ga st = (ga1, st1) \<longrightarrow>
      (ga1 = ga \<and> st1 = st)
      \<or> (\<exists>m \<in> set (feasible_members st (population ga)).
            (\<forall>r \<in> set (feasible_members st (population ga)).
                fitness (store st m) \<le> fitness (store st r))
          \<and> (case best_solution ga of
                None \<Rightarrow> True
              | Some b \<Rightarrow> fitness (store st m) < fitness (store st b))
          \<and> ga1 = ga\<lparr>best_solution := Some (next_ref st)\<rparr>
          \<and> next_ref st1 = Suc (next_ref st)
          \<and> store st1 = (store st)(next_ref st := store st m)))
   \<and> (run_generations cfg gs ga0 st0 = Inr (ga', st') \<longrightarrow>
        best_solution ga0 = Some b0 \<longrightarrow> b0 < next_ref st0 \<longrightarrow>
        (\<exists>b'. best_solution ga' = Some b' \<and> b' < next_ref st'
            \<and> fitness (store st' b') \<le> fitness (store st0 b0)))"
proof (intro conjI impI)
  assume u: "update_best_solution ga st = (ga1, st1)"
  from update_best_solution_cases [OF u] consider
    (same) "ga1 = ga" "st1 = st"
    | (new) r rs where "feasible_members st (population ga) = r # rs"
      "case best_solution ga of None \<Rightarrow> True
        | Some b \<Rightarrow> fitness (store st (min_by (\<lambda>r. fitness (store st r)) r rs))
                     < fitness (store st b)"
      "ga1 = ga\<lparr>best_solution := Some (next_ref st)\<rparr>"
      "next_ref st1 = Suc (next_ref st)"
      "store st1 = (store st)(next_ref st :=
          store st (min_by (\<lambda>r. fitness (store st r)) r rs))"
    by blast
  then show "(ga1 = ga \<and> st1 = st)
      \<or> (\<exists>m \<in> set (feasible_members st (population ga)).
            (\<forall>r \<in> set (feasible_members st (population ga)).
                fitness (store st m) \<le> fitness (store st r))
          \<and> (case best_solution ga of
                None \<Rightarrow> True
              | Some b \<Rightarrow> fitness (store st m) < fitness (store st b))
          \<and> ga1 = ga\<lparr>best_solution := Some (next_ref st)\<rparr>
          \<and> next_ref st1 = Suc (next_ref st)
          \<and> store st1 = (store st)(next_ref st := store st m))"
  proof cases
    case same
    then show ?thesis by simp
  next
    case (new r rs)
    let ?m = "min_by (\<lambda>r. fitness (store st r)) r rs"
    have "?m \<in> set (feasible_members st (population ga))"
      using min_by_mem [of "\<lambda>r. fitness (store st r)" r rs] new(1) by simp
    moreover have "\<forall>x \<in> set (feasible_members st (population ga)).
        fitness (store st ?m) \<le> fitness (store st x)"
      using min_by_le [of "\<lambda>r. fitness (store st r)" r rs] new(1) by simp
    ultimately show ?thesis using new(2-5) by blast
  qed
next
  assume "run_generations cfg gs ga0 st0 = Inr (ga', st')"
    and "best_solution ga0 = Some b0" and "b0 < next_ref st0"
  then show "\<exists>b'. best_solution ga' = Some b' \<and> b' < next_ref st'
            \<and> fitness (store st' b') \<le> fitness (store st0 b0)"
    by (rule run_generations_incumbent)
qed

theorem incumbent_fitness_non_increasing_witness:
  "update_best_solution (new_ga\<lparr>population := [0]\<rparr>) ex_state
     = (new_ga\<lparr>population := [0], best_solution := Some 1\<rparr>,
        ex_state\<lparr>next_ref := 2, store := (store ex_state)(1 := ex_evaluated (1/2))\<rparr>)
   \<and> 0 \<in> set (feasible_members ex_state [0])
   \<and> (\<exists>ga' b'. generation ex_cfg 0 ex_ga ex_state2 = Inr (ga', ex_state2)
         \<and> best_solution ex_ga = Some 1
         \<and> best_solution ga' = Some b'
         \<and> fitness (store ex_state2 b') \<le> fitness (store ex_state2 1))"
proof -
  from ex_generation obtain ga' where
    g: "generation ex_cfg 0 ex_ga ex_state2 = Inr (ga', ex_state2)" by blast
  then have r: "run_generations ex_cfg [0] ex_ga ex_state2 = Inr (ga', ex_state2)" by simp
  have b: "best_solution ex_ga = Some 1" "1 < next_ref ex_state2"
    by (simp_all add: ex_ga_def ex_state2_def)
  have f: "0 \<in> set (feasible_members ex_state [0])"
    by (simp add: feasible_members_def ex_state_def ex_evaluated_def)
  from incumbent_fitness_non_increasing
    [of "new_ga\<lparr>population := [0]\<rparr>" ex_state
        "new_ga\<lparr>population := [0], best_solution := Some 1\<rparr>"
        "ex_state\<lparr>next_ref := 2, store := (store ex_state)(1 := ex_evaluated (1/2))\<rparr>"
        ex_cfg "[0]" ex_ga ex_state2 ga' ex_state2 1]
    ex_update_first r b
  obtain b' where "best_solution ga' = Some b'"
    "fitness (store ex_state2 b') \<le> fitness (store ex_state2 1)" by blast
  with ex_update_first f g b(1) show ?thesis by blast
qed

section \<open>The operators and their inputs (claim C10)\<close>

text \<open>
  Claim C10, as the code has it. None of \<open>crossover\<close>, \<open>mutate\<close>,
  \<open>repair_solution\<close>, \<open>reassign_devices\<close> and \<open>simulated_annealing_improvement\<close>
  changes an object that exists when it is called, so the fields of every input are
  as before. The first four return objects allocated during the call, distinct from
  every input. \<open>simulated_annealing_improvement\<close> returns the input object itself
  when annealing is off or the temperature is below 0.1, and an object allocated
  during the call otherwise.
\<close>

theorem operators_leave_inputs_unchanged:
  "(crossover cfg parent1 parent2 st = Inr ((child1, child2), st1) \<longrightarrow>
      (\<forall>r<next_ref st. store st1 r = store st r)
      \<and> next_ref st \<le> child1 \<and> next_ref st \<le> child2)
   \<and> (mutate cfg solution st = Inr (mutated, st2) \<longrightarrow>
      (\<forall>r<next_ref st. store st2 r = store st r) \<and> next_ref st \<le> mutated)
   \<and> (repair_solution cfg solution st = Inr (repaired, st3) \<longrightarrow>
      (\<forall>r<next_ref st. store st3 r = store st r) \<and> next_ref st \<le> repaired)
   \<and> (reassign_devices cfg solution st = Inr (new_solution, st4) \<longrightarrow>
      (\<forall>r<next_ref st. store st4 r = store st r) \<and> next_ref st \<le> new_solution)
   \<and> (simulated_annealing_improvement cfg solution temperature st = Inr (improved, st5) \<longrightarrow>
      (\<forall>r<next_ref st. store st5 r = store st r)
      \<and> (if \<not> use_sa cfg \<or> temperature < 0.1 then improved = solution
          else next_ref st \<le> improved))"
proof -
  have a: "crossover cfg parent1 parent2 st = Inr ((child1, child2), st1) \<longrightarrow>
      (\<forall>r<next_ref st. store st1 r = store st r)
      \<and> next_ref st \<le> child1 \<and> next_ref st \<le> child2"
    using crossover_frame [of cfg parent1 parent2 st child1 child2 st1]
    by (simp add: preserves_def fresh_in_def)
  have b: "mutate cfg solution st = Inr (mutated, st2) \<longrightarrow>
      (\<forall>r<next_ref st. store st2 r = store st r) \<and> next_ref st \<le> mutated"
    using mutate_frame [of cfg solution st mutated st2]
    by (simp add: preserves_def fresh_in_def)
  have c: "repair_solution cfg solution st = Inr (repaired, st3) \<longrightarrow>
      (\<forall>r<next_ref st. store st3 r = store st r) \<and> next_ref st \<le> repaired"
    using repair_solution_frame [of cfg solution st repaired st3]
    by (simp add: preserves_def fresh_in_def)
  have d: "reassign_devices cfg solution st = Inr (new_solution, st4) \<longrightarrow>
      (\<forall>r<next_ref st. store st4 r = store st r) \<and> next_ref st \<le> new_solution"
    using reassign_devices_frame [of cfg solution st new_solution st4]
    by (simp add: preserves_def fresh_in_def)
  have e: "simulated_annealing_improvement cfg solution temperature st = Inr (improved, st5) \<longrightarrow>
      (\<forall>r<next_ref st. store st5 r = store st r)
      \<and> (if \<not> use_sa cfg \<or> temperature < 0.1 then improved = solution
          else next_ref st \<le> improved)"
    using simulated_annealing_improvement_frame [of cfg solution temperature st improved st5]
    by (auto simp: preserves_def fresh_in_def split: if_splits)
  show ?thesis
    by (intro conjI a b c d e)
qed

theorem operators_leave_inputs_unchanged_witness:
  "\<exists>child1 child2 st1 mutated st2 repaired st3 new_solution st4 improved st5.
      crossover ex_cfg 0 0 ex_state = Inr ((child1, child2), st1)
      \<and> store st1 0 = store ex_state 0 \<and> child1 \<noteq> 0 \<and> child2 \<noteq> 0
      \<and> mutate ex_cfg 0 ex_state = Inr (mutated, st2)
      \<and> store st2 0 = store ex_state 0 \<and> mutated \<noteq> 0
      \<and> repair_solution ex_cfg 0 ex_state = Inr (repaired, st3)
      \<and> store st3 0 = store ex_state 0 \<and> repaired \<noteq> 0
      \<and> reassign_devices ex_cfg 0 ex_state = Inr (new_solution, st4)
      \<and> store st4 0 = store ex_state 0 \<and> new_solution \<noteq> 0
      \<and> simulated_annealing_improvement ex_cfg 0 1 ex_state = Inr (improved, st5)
      \<and> store st5 0 = store ex_state 0"
proof -
  have n: "next_ref ex_state = 1" by (simp add: ex_state_def)
  have e: "evaluate (ga_problem ex_cfg) (ga_alpha ex_cfg) (store ex_state 0) = Inr (ex_evaluated (1/2))"
    by (simp add: ex_cfg_def ex_state_def ex_evaluated_again)
  have z: "crossover_rate ex_cfg = 0" "mutation_rate ex_cfg = 0" by (simp_all add: ex_cfg_def)
  from crossover_rate_zero [OF z(1) e e] n obtain st1 where
    c1: "crossover ex_cfg 0 0 ex_state = Inr ((1, 2), st1)" by auto
  from mutation_rate_zero [OF z(2) e] n obtain st2 where
    c2: "mutate ex_cfg 0 ex_state = Inr (1, st2)" by auto
  from ex_repair_solution obtain st3 where
    c3: "repair_solution ex_cfg 0 ex_state = Inr (1, st3)" by blast
  from ex_reassign_devices obtain st4 where
    c4: "reassign_devices ex_cfg 0 ex_state = Inr (1, st4)" by blast
  have c5: "simulated_annealing_improvement ex_cfg 0 1 ex_state = Inr (0, ex_state)"
    by (simp add: simulated_annealing_improvement_def ex_cfg_def)
  note t = operators_leave_inputs_unchanged [where cfg = ex_cfg and st = ex_state
      and ?parent1.0 = 0 and ?parent2.0 = 0 and solution = 0 and temperature = 1
      and ?child1.0 = 1 and ?child2.0 = 2 and ?st1.0 = st1 and mutated = 1 and ?st2.0 = st2
      and repaired = 1 and ?st3.0 = st3 and new_solution = 1 and ?st4.0 = st4
      and improved = 0 and ?st5.0 = ex_state]
  from t c1 n have "store st1 0 = store ex_state 0" by simp
  moreover from t c2 n have "store st2 0 = store ex_state 0" by simp
  moreover from t c3 n have "store st3 0 = store ex_state 0" by simp
  moreover from t c4 n have "store st4 0 = store ex_state 0" by simp
  ultimately show ?thesis using c1 c2 c3 c4 c5 by auto
qed

text \<open>
  With annealing off, and with annealing on at temperature 0.05,
  \<open>simulated_annealing_improvement\<close> returns the reference 0 it was given: not a
  distinct object.
\<close>

theorem sa_returns_its_input_counterexample:
  "simulated_annealing_improvement ex_cfg 0 1 ex_state = Inr (0, ex_state)
   \<and> simulated_annealing_improvement (ex_cfg\<lparr>use_sa := True\<rparr>) 0 (1/20) ex_state = Inr (0, ex_state)"
  by (simp add: simulated_annealing_improvement_def ex_cfg_def)

section \<open>The history series (claim C3)\<close>

text \<open>
  Claim C3. When \<open>evolve\<close> of a new engine returns, each of the three series has one
  entry per generation; the entries of generation \<open>k\<close> are the fitness, the total cost
  and the total latency of the feasible member of lowest fitness (the first of them, as
  \<open>min\<close> returns it) of the population at the end of generation \<open>k\<close>, which is the
  population of the engine that \<open>evolve\<close> has reached after \<open>k + 1\<close> generations, and
  they are \<open>+inf\<close> three times when that population has no feasible member.
\<close>

theorem history_series:
  assumes ev: "evolve cfg new_ga st = Inr (ga', st')"
  shows "length (fitness_history ga') = nat (generations cfg)
       \<and> length (cost_history ga') = nat (generations cfg)
       \<and> length (latency_history ga') = nat (generations cfg)
       \<and> (\<forall>k < nat (generations cfg). \<exists>gak stk.
             evolve_upto cfg (Suc k) new_ga st = Inr (gak, stk)
             \<and> (fitness_history ga' ! k, cost_history ga' ! k, latency_history ga' ! k)
                 = best_feasible_entry stk (population gak))"
proof -
  let ?n = "nat (generations cfg)"
  from ev obtain ga1 st1 where
    i: "initialize_population cfg new_ga st = Inr (ga1, st1)"
    and r: "run_generations cfg (map int [0..<?n]) ga1 st1 = Inr (ga', st')"
    by (auto simp: evolve_def split: sum.splits)
  note i1 = initialize_population_inv [OF i]
  from run_generations_histories [OF r] i1
  have len: "length (fitness_history ga') = ?n" "length (cost_history ga') = ?n"
    "length (latency_history ga') = ?n" by auto
  have each: "\<exists>gak stk. evolve_upto cfg (Suc k) new_ga st = Inr (gak, stk)
       \<and> (fitness_history ga' ! k, cost_history ga' ! k, latency_history ga' ! k)
           = best_feasible_entry stk (population gak)" if k: "k < ?n" for k
  proof -
    from k have eq: "k + (?n - k) = ?n" by simp
    have "[0..<k + (?n - k)] = [0..<k] @ [k..<k + (?n - k)]" by (rule upt_add_eq_append) simp
    then have "[0..<k] @ [k..<?n] = [0..<?n]" unfolding eq by simp
    moreover from k have "[k..<?n] = k # [Suc k..<?n]" by (rule upt_conv_Cons)
    ultimately have "[0..<?n] = [0..<k] @ [k] @ [Suc k..<?n]" by simp
    then have split: "map int [0..<?n] = map int [0..<k] @ [int k] @ map int [Suc k..<?n]"
      by simp
    from r obtain gaa sta where
      a: "run_generations cfg (map int [0..<k]) ga1 st1 = Inr (gaa, sta)"
      and ra: "run_generations cfg ([int k] @ map int [Suc k..<?n]) gaa sta = Inr (ga', st')"
      unfolding split run_generations_append [of cfg "map int [0..<k]"]
      by (auto split: sum.splits)
    from ra obtain gak stk where
      g: "generation cfg (int k) gaa sta = Inr (gak, stk)"
      and rest: "run_generations cfg (map int [Suc k..<?n]) gak stk = Inr (ga', st')"
      by (auto split: sum.splits)
    from run_generations_histories [OF a] i1 have inva: "engine_inv cfg gaa sta"
      and la: "length (fitness_history gaa) = k" "length (cost_history gaa) = k"
        "length (latency_history gaa) = k" by auto
    note s = generation_step [OF g inva]
    let ?e = "best_feasible_entry stk (population gak)"
    from s have invk: "engine_inv cfg gak stk"
      and hk: "fitness_history gak = fitness_history gaa @ [fst ?e]"
        "cost_history gak = cost_history gaa @ [fst (snd ?e)]"
        "latency_history gak = latency_history gaa @ [snd (snd ?e)]" by simp_all
    from run_generations_histories [OF rest invk] obtain fs cs ls where
      h: "fitness_history ga' = fitness_history gak @ fs"
        "cost_history ga' = cost_history gak @ cs"
        "latency_history ga' = latency_history gak @ ls" by blast
    have "fitness_history ga' ! k = fst ?e" "cost_history ga' ! k = fst (snd ?e)"
      "latency_history ga' ! k = snd (snd ?e)"
      using h hk la by (simp_all add: nth_append)
    then have e: "(fitness_history ga' ! k, cost_history ga' ! k, latency_history ga' ! k) = ?e"
      by simp
    have "run_generations cfg (map int [0..<Suc k]) ga1 st1 = Inr (gak, stk)"
      using a g by (simp add: run_generations_append)
    with i have "evolve_upto cfg (Suc k) new_ga st = Inr (gak, stk)"
      by (simp add: evolve_upto_def)
    with e show ?thesis by blast
  qed
  from len each show ?thesis by blast
qed

theorem history_series_witness:
  "\<exists>ga' st'. evolve ex7_cfg new_ga ex_state = Inr (ga', st')
      \<and> length (fitness_history ga') = 1 \<and> length (cost_history ga') = 1
      \<and> length (latency_history ga') = 1
      \<and> (fitness_history ga' ! 0, cost_history ga' ! 0, latency_history ga' ! 0)
          = best_feasible_entry st' (population ga')"
proof -
  from ex7_evolve [of ex_state] obtain ga' st' where
    e: "evolve ex7_cfg new_ga ex_state = Inr (ga', st')" by blast
  have n: "nat (generations ex7_cfg) = 1" by (simp add: ex7_cfg_def)
  note h = history_series [OF e, unfolded n]
  from h obtain gak stk where
    k: "evolve_upto ex7_cfg (Suc 0) new_ga ex_state = Inr (gak, stk)"
    "(fitness_history ga' ! 0, cost_history ga' ! 0, latency_history ga' ! 0)
        = best_feasible_entry stk (population gak)"
    by auto
  from e have "evolve_upto ex7_cfg (Suc 0) new_ga ex_state = Inr (ga', st')"
    by (simp add: evolve_upto_all n)
  with k have "gak = ga'" "stk = st'" by simp_all
  with e h k(2) show ?thesis by auto
qed

section \<open>Running to completion (claim C9)\<close>

text \<open>
  Claim C9 promises that \<open>evolve\<close> never raises for a positive population size. A
  tournament samples 3 members of the population, and \<open>random.sample\<close> raises
  ValueError when the population has fewer. With a population of one whose member is
  infeasible there is no elite to fill the next generation, so the first generation
  runs a tournament and \<open>evolve\<close> raises, whatever the random generator draws.
\<close>

theorem evolve_small_population_raises:
  "evolve ex3_cfg new_ga st = Inl ValueError"
proof -
  from ex3_create_random_solution [of st] obtain st1 where
    c: "create_random_solution ex3_cfg st = Inr (Suc (next_ref st), st1)"
    and f: "\<not> is_feasible (store st1 (Suc (next_ref st)))" by blast
  let ?ga = "new_ga\<lparr>population := [Suc (next_ref st)]\<rparr>"
  have fm: "feasible_members st1 (population ?ga) = []"
    using f by (simp add: feasible_members_def)
  have "initialize_population ex3_cfg new_ga st = Inr (?ga, st1)"
    using fm by (simp add: initialize_population_def ex3_cfg_def c [unfolded ex3_cfg_def]
        update_best_solution_def)
  moreover have "generation ex3_cfg 0 ?ga st1 = Inl ValueError"
    by (rule generation_too_small [OF fm]) (simp_all add: ex3_cfg_def)
  ultimately show ?thesis
    by (simp add: evolve_def ex3_cfg_def)
qed

end
